theory Spec2Isabelle
  imports Complex_Main
begin

section \<open>Array values\<close>

text \<open>
  The notebook computes on float64 arrays. The cells are modelled as rationals
  extended with the three special values of IEEE-754 arithmetic that numpy produces
  instead of raising: the two infinities and NaN, which is also how xarray and pandas
  mark a missing entry. Zero carries no sign (\<open>x / 0\<close> takes the sign of \<open>x\<close>).
  The operations of numpy, xarray and pandas are modelled as their documentation
  describes them.

  The operations of this section are exact: they do not round. \<open>step\<close> is modelled
  twice: in exact arithmetic with these operations, and in float64 arithmetic with the
  rounded operations of a later section. The properties below are proved of the exact
  arrays, unless they name the float64 ones; the two differ by the rounding of every
  operation, and an exact 0 need not be a rounded 0.
\<close>

datatype fval = Fin rat | PInf | NInf | NaN

fun fneg :: "fval \<Rightarrow> fval" where
  "fneg (Fin a) = Fin (- a)"
| "fneg PInf = NInf"
| "fneg NInf = PInf"
| "fneg NaN = NaN"

fun fadd :: "fval \<Rightarrow> fval \<Rightarrow> fval" where
  "fadd NaN y = NaN"
| "fadd x NaN = NaN"
| "fadd (Fin a) (Fin b) = Fin (a + b)"
| "fadd PInf NInf = NaN"
| "fadd NInf PInf = NaN"
| "fadd PInf y = PInf"
| "fadd x PInf = PInf"
| "fadd NInf y = NInf"
| "fadd x NInf = NInf"

definition fsub :: "fval \<Rightarrow> fval \<Rightarrow> fval" where
  "fsub x y = fadd x (fneg y)"

fun fmul :: "fval \<Rightarrow> fval \<Rightarrow> fval" where
  "fmul NaN y = NaN"
| "fmul x NaN = NaN"
| "fmul (Fin a) (Fin b) = Fin (a * b)"
| "fmul (Fin a) PInf = (if a = 0 then NaN else if 0 < a then PInf else NInf)"
| "fmul (Fin a) NInf = (if a = 0 then NaN else if 0 < a then NInf else PInf)"
| "fmul PInf (Fin b) = (if b = 0 then NaN else if 0 < b then PInf else NInf)"
| "fmul NInf (Fin b) = (if b = 0 then NaN else if 0 < b then NInf else PInf)"
| "fmul PInf PInf = PInf"
| "fmul PInf NInf = NInf"
| "fmul NInf PInf = NInf"
| "fmul NInf NInf = PInf"

fun fdiv :: "fval \<Rightarrow> fval \<Rightarrow> fval" where
  "fdiv NaN y = NaN"
| "fdiv x NaN = NaN"
| "fdiv (Fin a) (Fin b) =
     (if b = 0 then (if a = 0 then NaN else if 0 < a then PInf else NInf)
      else Fin (a / b))"
| "fdiv (Fin a) PInf = Fin 0"
| "fdiv (Fin a) NInf = Fin 0"
| "fdiv PInf (Fin b) = (if 0 \<le> b then PInf else NInf)"
| "fdiv NInf (Fin b) = (if 0 \<le> b then NInf else PInf)"
| "fdiv PInf PInf = NaN"
| "fdiv PInf NInf = NaN"
| "fdiv NInf PInf = NaN"
| "fdiv NInf NInf = NaN"

fun fabs :: "fval \<Rightarrow> fval" where
  "fabs (Fin a) = Fin \<bar>a\<bar>"
| "fabs PInf = PInf"
| "fabs NInf = PInf"
| "fabs NaN = NaN"

text \<open>The comparisons \<open>x > 0.0\<close> and \<open>x <= 0.0\<close>; both are false on NaN.\<close>

fun gt0 :: "fval \<Rightarrow> bool" where
  "gt0 (Fin a) = (0 < a)"
| "gt0 PInf = True"
| "gt0 NInf = False"
| "gt0 NaN = False"

fun le0 :: "fval \<Rightarrow> bool" where
  "le0 (Fin a) = (a \<le> 0)"
| "le0 PInf = False"
| "le0 NInf = True"
| "le0 NaN = False"

fun is_fin :: "fval \<Rightarrow> bool" where
  "is_fin (Fin a) = True"
| "is_fin x = False"

type_synonym arr1 = "fval list"
type_synonym arr2 = "fval list list"

text \<open>
  Reductions over one axis. \<open>fsum\<close> is the plain sum; \<open>nansum\<close> and
  \<open>nanmean\<close> are what \<open>sum\<close> and \<open>mean\<close> do with \<open>skipna\<close> (the default
  on float data): the NaN entries are dropped first. The sum of no entry is 0 and the
  mean of no entry is \<open>0 / 0\<close>, NaN (numpy warns and does not raise; the notebook
  silences the warning).
\<close>

definition fsum :: "arr1 \<Rightarrow> fval" where
  "fsum xs = foldr fadd xs (Fin 0)"

definition dropna :: "arr1 \<Rightarrow> arr1" where
  "dropna xs = filter (\<lambda>x. x \<noteq> NaN) xs"

definition nansum :: "arr1 \<Rightarrow> fval" where
  "nansum xs = fsum (dropna xs)"

definition nanmean :: "arr1 \<Rightarrow> fval" where
  "nanmean xs = fdiv (fsum (dropna xs)) (Fin (of_nat (length (dropna xs))))"

section \<open>The panel\<close>

text \<open>
  \<open>data\<close> is an \<open>xarray.DataArray\<close> with the dimensions (time, field, asset).
  It is modelled as the list of its time slices in the order supplied; a slice
  holds its time coordinate and one row over the assets for each field. The
  strategy reads the fields \<open>close\<close> and \<open>is_liquid\<close>.
\<close>

datatype field = Close | Is_liquid

record slice =
  time :: int
  cells :: "field \<Rightarrow> arr1"

type_synonym panel = "slice list"

text \<open>A panel is rectangular: every row of every slice has one cell per asset.\<close>

definition rect :: "nat \<Rightarrow> panel \<Rightarrow> bool" where
  "rect n data = list_all (\<lambda>s. length (cells s Close) = n \<and> length (cells s Is_liquid) = n) data"

text \<open>The order of the time axis as supplied: most recent first, or oldest first.\<close>

definition descending :: "panel \<Rightarrow> bool" where
  "descending data = sorted_wrt (\<lambda>s u. time u < time s) data"

definition ascending :: "panel \<Rightarrow> bool" where
  "ascending data = sorted_wrt (\<lambda>s u. time s < time u) data"

section \<open>The array operations the strategy uses\<close>

text \<open>\<open>data.loc[::-1, f, :]\<close>: the field \<open>f\<close> with the time axis reversed.\<close>

definition loc_rev :: "field \<Rightarrow> panel \<Rightarrow> arr2" where
  "loc_rev f data = map (\<lambda>s. cells s f) (rev data)"

text \<open>\<open>A.shift({"time":1})\<close>: every row moves one step down the time axis, the
  first row is filled with NaN and the last one is dropped.\<close>

definition shift_time :: "arr2 \<Rightarrow> arr2" where
  "shift_time A = (case A of [] \<Rightarrow> [] | r # _ \<Rightarrow> map (\<lambda>_. NaN) r # butlast A)"

text \<open>Cell by cell operations on two arrays of the same coordinates.\<close>

definition ew2 :: "('a \<Rightarrow> 'b \<Rightarrow> 'c) \<Rightarrow> 'a list list \<Rightarrow> 'b list list \<Rightarrow> 'c list list" where
  "ew2 f A B = map2 (map2 f) A B"

text \<open>
  \<open>A.rolling({"time":w}).mean()\<close>, with \<open>min_periods\<close> left at its default,
  the window size. The window of row \<open>i\<close> and asset \<open>a\<close> holds the \<open>w\<close>
  cells of the column that end at row \<open>i\<close>, NaN standing where the window
  reaches before the first row. The result is the mean of the window's
  observations (its cells that are not NaN) when there are at least
  \<open>min_periods\<close> of them, and NaN otherwise: \<open>rolling_values\<close> is the array
  of these means.

  The call does not always return. On an empty time axis it raises ValueError. Where
  the package bottleneck is installed, xarray hands the rolling mean of a numpy array
  to \<open>bottleneck.move_mean\<close>, which raises ValueError on every axis shorter than
  the window as well. The flag \<open>bottleneck\<close> of \<open>rolling_mean\<close> says whether the
  package is installed; the means are modelled as the same with and without it.
\<close>

datatype error = ValueError | IndexError

definition window :: "nat \<Rightarrow> arr2 \<Rightarrow> nat \<Rightarrow> nat \<Rightarrow> arr1" where
  "window w A i a = map (\<lambda>j. if j < w - 1 then NaN else A ! (j - (w - 1)) ! a) [i..<i + w]"

definition window_mean :: "nat \<Rightarrow> arr1 \<Rightarrow> fval" where
  "window_mean min_periods win =
     (if min_periods \<le> length (dropna win) then nanmean win else NaN)"

definition rolling_values :: "nat \<Rightarrow> arr2 \<Rightarrow> arr2" where
  "rolling_values w A =
     map (\<lambda>i. map (\<lambda>a. window_mean w (window w A i a)) [0..<length (A ! i)]) [0..<length A]"

definition rolling_mean :: "bool \<Rightarrow> nat \<Rightarrow> arr2 \<Rightarrow> error + arr2" where
  "rolling_mean bottleneck w A =
     (if A = [] \<or> (bottleneck \<and> length A < w) then Inl ValueError
      else Inr (rolling_values w A))"

text \<open>\<open>(L > 0.0)\<close>, \<open>B.astype(int)\<close> (read as a number by the product that
  follows) and \<open>A.where(B)\<close>.\<close>

definition gt0_arr :: "arr2 \<Rightarrow> bool list list" where
  "gt0_arr L = map (map gt0) L"

definition astype_int :: "bool list list \<Rightarrow> arr2" where
  "astype_int B = map (map (\<lambda>b. Fin (if b then 1 else 0))) B"

definition where_arr :: "arr2 \<Rightarrow> bool list list \<Rightarrow> arr2" where
  "where_arr A B = ew2 (\<lambda>x b. if b then x else NaN) A B"

text \<open>\<open>A.mean("asset")\<close> and \<open>A.sum("asset")\<close>: one value per time step.\<close>

definition mean_asset :: "arr2 \<Rightarrow> arr1" where
  "mean_asset A = map nanmean A"

definition sum_asset :: "arr2 \<Rightarrow> arr1" where
  "sum_asset A = map nansum A"

text \<open>An array over (time, asset) combined with one over time: the value of
  the time step is used for every asset of its row.\<close>

definition bc_time :: "(fval \<Rightarrow> fval \<Rightarrow> fval) \<Rightarrow> arr2 \<Rightarrow> arr1 \<Rightarrow> arr2" where
  "bc_time f A v = map2 (\<lambda>row m. map (\<lambda>x. f x m) row) A v"

definition abs_arr :: "arr2 \<Rightarrow> arr2" where
  "abs_arr A = map (map fabs) A"

definition fillna :: "fval \<Rightarrow> arr2 \<Rightarrow> arr2" where
  "fillna v A = map (map (\<lambda>x. if x = NaN then v else x)) A"

section \<open>The step function\<close>

text \<open>
  \<^verbatim>\<open>
  def step(data):
      is_liquid = data.loc[::-1,"is_liquid",:]
      prices = data.loc[::-1, "close",:]
      prices_shifted = prices.shift({"time":1})
      returns = (prices - prices_shifted)/prices_shifted
      avg_returns = returns.rolling({"time":100}).mean()
      liq_avg_returns = (is_liquid > 0.0).astype(int) * avg_returns
      liq_avg_returns_mean = liq_avg_returns.where(is_liquid > 0.0).mean("asset")
      liq_avg_returns_neutralized = liq_avg_returns-liq_avg_returns_mean
      liq_avg_returns_neutralized = (is_liquid > 0.0).astype(int) * liq_avg_returns_neutralized
      weights = liq_avg_returns_neutralized / abs(liq_avg_returns_neutralized).sum("asset")
      weights = weights.fillna(0.0)
      return weights[-1]
  \<close>
  One definition for each assignment, under the name of the variable it assigns.
  \<open>liq_avg_returns_neutralized\<close> is assigned twice: the first value is
  \<open>liq_avg_returns_neutralized1\<close> here. \<open>abs_sum\<close> is the denominator
  \<open>abs(liq_avg_returns_neutralized).sum("asset")\<close>, and \<open>weights\<close> is the array
  after \<open>fillna\<close>. The rolling mean is the one operation of \<open>step\<close> that can
  raise: \<open>avg_returns\<close> is the array it returns when it returns, and the arrays
  after it are those of the assignments that are reached then.
\<close>

definition is_liquid :: "panel \<Rightarrow> arr2" where
  "is_liquid data = loc_rev Is_liquid data"

definition prices :: "panel \<Rightarrow> arr2" where
  "prices data = loc_rev Close data"

definition prices_shifted :: "panel \<Rightarrow> arr2" where
  "prices_shifted data = shift_time (prices data)"

definition returns :: "panel \<Rightarrow> arr2" where
  "returns data = ew2 (\<lambda>p s. fdiv (fsub p s) s) (prices data) (prices_shifted data)"

definition avg_returns :: "panel \<Rightarrow> arr2" where
  "avg_returns data = rolling_values 100 (returns data)"

definition liq_avg_returns :: "panel \<Rightarrow> arr2" where
  "liq_avg_returns data = ew2 fmul (astype_int (gt0_arr (is_liquid data))) (avg_returns data)"

definition liq_avg_returns_mean :: "panel \<Rightarrow> arr1" where
  "liq_avg_returns_mean data =
     mean_asset (where_arr (liq_avg_returns data) (gt0_arr (is_liquid data)))"

definition liq_avg_returns_neutralized1 :: "panel \<Rightarrow> arr2" where
  "liq_avg_returns_neutralized1 data =
     bc_time fsub (liq_avg_returns data) (liq_avg_returns_mean data)"

definition liq_avg_returns_neutralized :: "panel \<Rightarrow> arr2" where
  "liq_avg_returns_neutralized data =
     ew2 fmul (astype_int (gt0_arr (is_liquid data))) (liq_avg_returns_neutralized1 data)"

definition abs_sum :: "panel \<Rightarrow> arr1" where
  "abs_sum data = sum_asset (abs_arr (liq_avg_returns_neutralized data))"

definition weights :: "panel \<Rightarrow> arr2" where
  "weights data = fillna (Fin 0) (bc_time fdiv (liq_avg_returns_neutralized data) (abs_sum data))"

text \<open>
  The call \<open>step(data)\<close>, in an environment with or without bottleneck. When the
  rolling mean raises, \<open>step\<close> raises with it and no later line is reached.
  Otherwise the array it has returned is \<open>avg_returns data\<close>, and \<open>step\<close> returns
  \<open>weights[-1]\<close>: the last row of the reversed time axis, with its time coordinate.
  An index into an empty axis would raise IndexError; the rolling mean has raised on
  such a panel before.
\<close>

record weight_vector =
  at_time :: int
  fractions :: arr1

definition step_in :: "bool \<Rightarrow> panel \<Rightarrow> error + weight_vector" where
  "step_in bottleneck data =
     (case rolling_mean bottleneck 100 (returns data) of
        Inl e \<Rightarrow> Inl e
      | Inr avg \<Rightarrow>
          if weights data = [] then Inl IndexError
          else Inr \<lparr>at_time = last (map time (rev data)), fractions = last (weights data)\<rparr>)"

text \<open>\<open>step\<close> where xarray computes the rolling mean itself (bottleneck is not
  installed).\<close>

definition step :: "panel \<Rightarrow> error + weight_vector" where
  "step data = step_in False data"

section \<open>The pandas pipeline of the notebook\<close>

text \<open>
  The cell before \<open>step\<close> computes the same strategy on pandas data frames, over
  the whole panel at once:
  \<^verbatim>\<open>
  is_liquid = data.loc[:,"is_liquid",:].to_pandas().iloc[::-1,:]
  prices = data.loc[:, "close",:].to_pandas().iloc[::-1,:]
  returns = prices.pct_change(1)
  avg_returns = returns.rolling(100).mean()
  liq_avg_returns = (is_liquid > 0.0).astype(int).multiply(avg_returns)
  liq_avg_returns_mean = liq_avg_returns[is_liquid > 0.0].mean(axis=1)
  liq_avg_returns_neutralized = liq_avg_returns.subtract(liq_avg_returns_mean, axis=0)
  liq_avg_returns_neutralized = (is_liquid > 0.0).astype(int).multiply(liq_avg_returns_neutralized)
  weights = liq_avg_returns_neutralized.div(liq_avg_returns_neutralized.abs().sum(axis=1, skipna=True), axis=0)
  weights = weights.fillna(0.0)
  \<close>
  The definitions carry the names of its variables with the prefix \<open>pd_\<close>.
  \<open>to_pandas().iloc[::-1,:]\<close> gives the field as a frame with the time axis
  reversed. The operations are those of \<open>step\<close> but for the returns:
  \<open>prices.pct_change(1)\<close> first fills every missing price with the last price
  before it in its column (its \<open>fill_method\<close> defaults to \<open>pad\<close>), and then
  divides each row by the row before it and subtracts 1. The \<open>rolling(100).mean()\<close>
  of pandas has the window size as its \<open>min_periods\<close> too, but it is not the
  rolling mean of xarray: it replaces every infinite cell by NaN before it forms the
  windows, and it raises on no frame, empty or short.
\<close>

fun ffill_from :: "arr1 \<Rightarrow> arr2 \<Rightarrow> arr2" where
  "ffill_from prev [] = []"
| "ffill_from prev (r # rs) =
     (let r' = map2 (\<lambda>p x. if x = NaN then p else x) prev r in r' # ffill_from r' rs)"

definition ffill :: "arr2 \<Rightarrow> arr2" where
  "ffill A = (case A of [] \<Rightarrow> [] | r # rs \<Rightarrow> r # ffill_from r rs)"

definition pct_change :: "arr2 \<Rightarrow> arr2" where
  "pct_change A = (let data = ffill A in ew2 (\<lambda>x y. fsub (fdiv x y) (Fin 1)) data (shift_time data))"

definition pd_is_liquid :: "panel \<Rightarrow> arr2" where
  "pd_is_liquid data = rev (map (\<lambda>s. cells s Is_liquid) data)"

definition pd_prices :: "panel \<Rightarrow> arr2" where
  "pd_prices data = rev (map (\<lambda>s. cells s Close) data)"

definition pd_returns :: "panel \<Rightarrow> arr2" where
  "pd_returns data = pct_change (pd_prices data)"

definition pd_rolling_mean :: "nat \<Rightarrow> arr2 \<Rightarrow> arr2" where
  "pd_rolling_mean w A =
     rolling_values w (map (map (\<lambda>x. if x = PInf \<or> x = NInf then NaN else x)) A)"

definition pd_avg_returns :: "panel \<Rightarrow> arr2" where
  "pd_avg_returns data = pd_rolling_mean 100 (pd_returns data)"

definition pd_liq_avg_returns :: "panel \<Rightarrow> arr2" where
  "pd_liq_avg_returns data =
     ew2 fmul (astype_int (gt0_arr (pd_is_liquid data))) (pd_avg_returns data)"

definition pd_liq_avg_returns_mean :: "panel \<Rightarrow> arr1" where
  "pd_liq_avg_returns_mean data =
     mean_asset (where_arr (pd_liq_avg_returns data) (gt0_arr (pd_is_liquid data)))"

definition pd_liq_avg_returns_neutralized1 :: "panel \<Rightarrow> arr2" where
  "pd_liq_avg_returns_neutralized1 data =
     bc_time fsub (pd_liq_avg_returns data) (pd_liq_avg_returns_mean data)"

definition pd_liq_avg_returns_neutralized :: "panel \<Rightarrow> arr2" where
  "pd_liq_avg_returns_neutralized data =
     ew2 fmul (astype_int (gt0_arr (pd_is_liquid data))) (pd_liq_avg_returns_neutralized1 data)"

definition pd_weights :: "panel \<Rightarrow> arr2" where
  "pd_weights data =
     fillna (Fin 0)
       (bc_time fdiv (pd_liq_avg_returns_neutralized data)
          (sum_asset (abs_arr (pd_liq_avg_returns_neutralized data))))"

section \<open>The step function in float64 arithmetic\<close>

text \<open>
  numpy computes on IEEE-754 binary64 numbers. An arithmetic operation returns the
  exact result rounded to the nearest number with a significand of 53 bits, and to the
  one with the even significand when two are equally near. \<open>round64\<close> is this
  rounding of a rational \<open>x\<close>: with \<open>2^e \<le> |x| < 2^(e+1)\<close> the numbers around
  \<open>x\<close> are \<open>2^(e-52)\<close> apart, so that \<open>x\<close> is rounded to \<open>m * 2^(e-52)\<close>
  with \<open>m\<close> the whole number nearest to \<open>x / 2^(e-52)\<close>; \<open>e\<close> is not taken
  below -1022, under which the numbers stay \<open>2^-1074\<close> apart; and the result is an
  infinity where it would be \<open>2^1024\<close> or beyond, which is where \<open>e\<close> is 1024 or
  more, or \<open>e\<close> is 1023 and \<open>m\<close> has reached \<open>2^53\<close>.
\<close>

function bit_length :: "int \<Rightarrow> nat" where
  "bit_length n = (if n \<le> 0 then 0 else Suc (bit_length (n div 2)))"
  by pat_completeness auto

termination
  by (relation "measure nat") auto

declare bit_length.simps [simp del]

definition pow2 :: "int \<Rightarrow> rat" where
  "pow2 k = (if 0 \<le> k then 2 ^ nat k else 1 / 2 ^ nat (- k))"

text \<open>The exponent \<open>e\<close> with \<open>2^e \<le> |x| < 2^(e+1)\<close>, for \<open>x\<close> other than 0.\<close>

definition ilog2 :: "rat \<Rightarrow> int" where
  "ilog2 x =
     (let (n, d) = quotient_of \<bar>x\<bar>;
          k = int (bit_length n) - int (bit_length d)
      in if pow2 k \<le> \<bar>x\<bar> then k else k - 1)"

definition round_even :: "rat \<Rightarrow> int" where
  "round_even x =
     (let f = \<lfloor>x\<rfloor>; r = x - of_int f
      in if r < 1 / 2 then f else if 1 / 2 < r then f + 1 else if even f then f else f + 1)"

definition round64 :: "rat \<Rightarrow> fval" where
  "round64 x =
     (if x = 0 then Fin 0
      else let e = max (ilog2 x) (- 1022);
               q = pow2 (e - 52);
               m = round_even (x / q)
           in if 1024 \<le> e \<or> (e = 1023 \<and> \<bar>m\<bar> = 2 ^ 53)
              then (if 0 < x then PInf else NInf)
              else Fin (of_int m * q))"

fun rnd :: "fval \<Rightarrow> fval" where
  "rnd (Fin a) = round64 a"
| "rnd x = x"

text \<open>
  The four operations as numpy computes them, and the reductions built on them. A sum
  adds the cells from the first to the last, starting from 0, as numpy does on an axis
  of fewer than eight cells. (On a longer axis numpy adds in another order; the result
  is the same where at most one cell is not 0, as in the panels evaluated here.)
\<close>

definition fadd64 :: "fval \<Rightarrow> fval \<Rightarrow> fval" where
  "fadd64 x y = rnd (fadd x y)"

definition fsub64 :: "fval \<Rightarrow> fval \<Rightarrow> fval" where
  "fsub64 x y = rnd (fsub x y)"

definition fmul64 :: "fval \<Rightarrow> fval \<Rightarrow> fval" where
  "fmul64 x y = rnd (fmul x y)"

definition fdiv64 :: "fval \<Rightarrow> fval \<Rightarrow> fval" where
  "fdiv64 x y = rnd (fdiv x y)"

definition fsum64 :: "arr1 \<Rightarrow> fval" where
  "fsum64 xs = foldl fadd64 (Fin 0) xs"

definition nansum64 :: "arr1 \<Rightarrow> fval" where
  "nansum64 xs = fsum64 (dropna xs)"

definition nanmean64 :: "arr1 \<Rightarrow> fval" where
  "nanmean64 xs = fdiv64 (fsum64 (dropna xs)) (Fin (of_nat (length (dropna xs))))"

definition window_mean64 :: "nat \<Rightarrow> arr1 \<Rightarrow> fval" where
  "window_mean64 min_periods win =
     (if min_periods \<le> length (dropna win) then nanmean64 win else NaN)"

definition rolling_values64 :: "nat \<Rightarrow> arr2 \<Rightarrow> arr2" where
  "rolling_values64 w A =
     map (\<lambda>i. map (\<lambda>a. window_mean64 w (window w A i a)) [0..<length (A ! i)]) [0..<length A]"

definition rolling_mean64 :: "bool \<Rightarrow> nat \<Rightarrow> arr2 \<Rightarrow> error + arr2" where
  "rolling_mean64 bottleneck w A =
     (if A = [] \<or> (bottleneck \<and> length A < w) then Inl ValueError
      else Inr (rolling_values64 w A))"

definition mean_asset64 :: "arr2 \<Rightarrow> arr1" where
  "mean_asset64 A = map nanmean64 A"

definition sum_asset64 :: "arr2 \<Rightarrow> arr1" where
  "sum_asset64 A = map nansum64 A"

text \<open>
  The assignments of \<open>step\<close> with every operation rounded, under the names of the
  variables with the suffix 64. \<open>is_liquid\<close>, \<open>prices\<close> and \<open>prices_shifted\<close>
  hold no arithmetic and are the arrays above. \<open>step64\<close> is the call where xarray
  computes the rolling mean itself.
\<close>

definition returns64 :: "panel \<Rightarrow> arr2" where
  "returns64 data = ew2 (\<lambda>p s. fdiv64 (fsub64 p s) s) (prices data) (prices_shifted data)"

definition avg_returns64 :: "panel \<Rightarrow> arr2" where
  "avg_returns64 data = rolling_values64 100 (returns64 data)"

definition liq_avg_returns64 :: "panel \<Rightarrow> arr2" where
  "liq_avg_returns64 data =
     ew2 fmul64 (astype_int (gt0_arr (is_liquid data))) (avg_returns64 data)"

definition liq_avg_returns_mean64 :: "panel \<Rightarrow> arr1" where
  "liq_avg_returns_mean64 data =
     mean_asset64 (where_arr (liq_avg_returns64 data) (gt0_arr (is_liquid data)))"

definition liq_avg_returns_neutralized1_64 :: "panel \<Rightarrow> arr2" where
  "liq_avg_returns_neutralized1_64 data =
     bc_time fsub64 (liq_avg_returns64 data) (liq_avg_returns_mean64 data)"

definition liq_avg_returns_neutralized64 :: "panel \<Rightarrow> arr2" where
  "liq_avg_returns_neutralized64 data =
     ew2 fmul64 (astype_int (gt0_arr (is_liquid data))) (liq_avg_returns_neutralized1_64 data)"

definition abs_sum64 :: "panel \<Rightarrow> arr1" where
  "abs_sum64 data = sum_asset64 (abs_arr (liq_avg_returns_neutralized64 data))"

definition weights64 :: "panel \<Rightarrow> arr2" where
  "weights64 data =
     fillna (Fin 0) (bc_time fdiv64 (liq_avg_returns_neutralized64 data) (abs_sum64 data))"

definition step64 :: "panel \<Rightarrow> error + weight_vector" where
  "step64 data =
     (case rolling_mean64 False 100 (returns64 data) of
        Inl e \<Rightarrow> Inl e
      | Inr avg \<Rightarrow>
          if weights64 data = [] then Inl IndexError
          else Inr \<lparr>at_time = last (map time (rev data)), fractions = last (weights64 data)\<rparr>)"

section \<open>Notions the properties are stated with\<close>

text \<open>The cells of a row \<open>xs\<close> that belong to the assets that are liquid in \<open>L\<close>.\<close>

definition liquid_part :: "arr1 \<Rightarrow> arr1 \<Rightarrow> arr1" where
  "liquid_part L xs = map snd (filter (\<lambda>p. gt0 (fst p)) (zip L xs))"

text \<open>Time step \<open>i\<close> has 100 trailing return observations for each of the \<open>n\<close>
  assets: the returns of the time steps \<open>i - 99\<close> to \<open>i\<close> are all numbers.\<close>

definition observed :: "panel \<Rightarrow> nat \<Rightarrow> nat \<Rightarrow> bool" where
  "observed data n i \<longleftrightarrow>
     99 \<le> i \<and> list_all (\<lambda>a. list_all (\<lambda>k. is_fin (returns data ! k ! a)) [i - 99..<Suc i]) [0..<n]"

text \<open>
  The weight vector the calculator computes for the date \<open>t\<close>: the row of
  \<open>weights\<close> whose time coordinate is \<open>t\<close>, if there is one. \<open>up_to t data\<close>
  keeps the time steps of the panel up to and including the date \<open>t\<close>.
\<close>

definition weight_at :: "panel \<Rightarrow> int \<Rightarrow> arr1 option" where
  "weight_at data t = map_of (zip (map time (rev data)) (weights data)) t"

definition up_to :: "int \<Rightarrow> panel \<Rightarrow> panel" where
  "up_to t data = filter (\<lambda>s. time s \<le> t) data"

text \<open>What the walk-forward driver gets for the date \<open>t\<close>: \<open>step\<close> on the panel cut
  after \<open>t\<close>, if the vector it returns is that of \<open>t\<close>.\<close>

definition walk_forward :: "panel \<Rightarrow> int \<Rightarrow> arr1 option" where
  "walk_forward data t =
     (case step (up_to t data) of
        Inl e \<Rightarrow> None
      | Inr v \<Rightarrow> if at_time v = t then Some (fractions v) else None)"

text \<open>No cell of the array is infinite, and no cell of the array is 0.\<close>

definition no_inf :: "arr2 \<Rightarrow> bool" where
  "no_inf A = list_all (list_all (\<lambda>x. x \<noteq> PInf \<and> x \<noteq> NInf)) A"

definition no_zero :: "arr2 \<Rightarrow> bool" where
  "no_zero A = list_all (list_all (\<lambda>x. x \<noteq> Fin 0)) A"

section \<open>The pipeline read row by row\<close>

text \<open>After the rolling mean every assignment of \<open>step\<close> works inside one time
  step. The functions below compute, from the liquidity row \<open>L\<close> and the row \<open>V\<close> of
  average returns of one time step, the row of each later array; they are used to
  reason about the arrays one row at a time.\<close>

definition row_mask :: "arr1 \<Rightarrow> arr1" where
  "row_mask L = map (\<lambda>b. Fin (if b then 1 else 0)) (map gt0 L)"

definition row_liq_avg :: "arr1 \<Rightarrow> arr1 \<Rightarrow> arr1" where
  "row_liq_avg L V = map2 fmul (row_mask L) V"

definition row_mean :: "arr1 \<Rightarrow> arr1 \<Rightarrow> fval" where
  "row_mean L V = nanmean (map2 (\<lambda>x b. if b then x else NaN) (row_liq_avg L V) (map gt0 L))"

definition row_neutralized :: "arr1 \<Rightarrow> arr1 \<Rightarrow> arr1" where
  "row_neutralized L V =
     map2 fmul (row_mask L) (map (\<lambda>x. fsub x (row_mean L V)) (row_liq_avg L V))"

definition row_abs_sum :: "arr1 \<Rightarrow> arr1 \<Rightarrow> fval" where
  "row_abs_sum L V = nansum (map fabs (row_neutralized L V))"

definition row_weights :: "arr1 \<Rightarrow> arr1 \<Rightarrow> arr1" where
  "row_weights L V =
     map (\<lambda>x. if x = NaN then Fin 0 else x)
       (map (\<lambda>x. fdiv x (row_abs_sum L V)) (row_neutralized L V))"

text \<open>The rational behind a finite cell (0 for the others), and \<open>fillna(0.0)\<close> on
  one cell.\<close>

fun fin_val :: "fval \<Rightarrow> rat" where
  "fin_val (Fin a) = a"
| "fin_val x = 0"

definition fill0 :: "fval \<Rightarrow> fval" where
  "fill0 x = (if x = NaN then Fin 0 else x)"

text \<open>The same rows in float64 arithmetic.\<close>

definition row_liq_avg64 :: "arr1 \<Rightarrow> arr1 \<Rightarrow> arr1" where
  "row_liq_avg64 L V = map2 fmul64 (row_mask L) V"

definition row_mean64 :: "arr1 \<Rightarrow> arr1 \<Rightarrow> fval" where
  "row_mean64 L V = nanmean64 (map2 (\<lambda>x b. if b then x else NaN) (row_liq_avg64 L V) (map gt0 L))"

definition row_neutralized64 :: "arr1 \<Rightarrow> arr1 \<Rightarrow> arr1" where
  "row_neutralized64 L V =
     map2 fmul64 (row_mask L) (map (\<lambda>x. fsub64 x (row_mean64 L V)) (row_liq_avg64 L V))"

definition row_abs_sum64 :: "arr1 \<Rightarrow> arr1 \<Rightarrow> fval" where
  "row_abs_sum64 L V = nansum64 (map fabs (row_neutralized64 L V))"

definition row_weights64 :: "arr1 \<Rightarrow> arr1 \<Rightarrow> arr1" where
  "row_weights64 L V =
     map (\<lambda>x. if x = NaN then Fin 0 else x)
       (map (\<lambda>x. fdiv64 x (row_abs_sum64 L V)) (row_neutralized64 L V))"

section \<open>Sample panels\<close>

text \<open>Three assets over 101 trading days, in the order the loader delivers them
  (most recent day first). The first asset is flat at 1, the second is flat at 1 and
  closes at 2 on the last day, the third moves from 4 to 5 on day 98 and is never
  liquid.\<close>

definition demo_slice :: "nat \<Rightarrow> slice" where
  "demo_slice j = \<lparr>time = int j,
     cells = (\<lambda>f. case f of
        Close \<Rightarrow> [Fin 1, if j = 100 then Fin 2 else Fin 1, if 97 < j then Fin 5 else Fin 4]
      | Is_liquid \<Rightarrow> [Fin 1, Fin 1, Fin 0])\<rparr>"

definition demo :: panel where
  "demo = rev (map demo_slice [0..<101])"

text \<open>Two assets that never move, both liquid, over 101 trading days.\<close>

definition flat_slice :: "nat \<Rightarrow> slice" where
  "flat_slice j = \<lparr>time = int j,
     cells = (\<lambda>f. case f of Close \<Rightarrow> [Fin 1, Fin 3] | Is_liquid \<Rightarrow> [Fin 1, Fin 1])\<rparr>"

definition flat :: panel where
  "flat = rev (map flat_slice [0..<101])"

text \<open>One asset over two trading days, most recent first: the close is 0 on the
  first day and 3 on the second.\<close>

definition halted :: panel where
  "halted = [\<lparr>time = 1, cells = (\<lambda>f. case f of Close \<Rightarrow> [Fin 3] | Is_liquid \<Rightarrow> [Fin 1])\<rparr>,
             \<lparr>time = 0, cells = (\<lambda>f. case f of Close \<Rightarrow> [Fin 0] | Is_liquid \<Rightarrow> [Fin 1])\<rparr>]"

text \<open>Two different continuations of the sample panel by the trading day 101.\<close>

definition later_a :: slice where
  "later_a = \<lparr>time = 101,
     cells = (\<lambda>f. case f of Close \<Rightarrow> [Fin 7, Fin 1, Fin 5] | Is_liquid \<Rightarrow> [Fin 1, Fin 1, Fin 1])\<rparr>"

definition later_b :: slice where
  "later_b = \<lparr>time = 101,
     cells = (\<lambda>f. case f of Close \<Rightarrow> [Fin 1, Fin 9, Fin 2] | Is_liquid \<Rightarrow> [Fin 0, Fin 1, Fin 1])\<rparr>"

text \<open>The sample panel with another last day: the second asset stays at 1.\<close>

definition calm_day :: slice where
  "calm_day = \<lparr>time = 100,
     cells = (\<lambda>f. case f of Close \<Rightarrow> [Fin 1, Fin 1, Fin 5] | Is_liquid \<Rightarrow> [Fin 1, Fin 1, Fin 0])\<rparr>"

definition calm :: panel where
  "calm = calm_day # drop 1 demo"

text \<open>Two liquid assets over 102 trading days, most recent first. The first asset is
  flat at 1 and has no close on day 1; the second is flat at 1 and closes at 2 on the
  last day.\<close>

definition gap_slice :: "nat \<Rightarrow> slice" where
  "gap_slice j = \<lparr>time = int j,
     cells = (\<lambda>f. case f of
        Close \<Rightarrow> [if j = 1 then NaN else Fin 1, if j = 101 then Fin 2 else Fin 1]
      | Is_liquid \<Rightarrow> [Fin 1, Fin 1])\<rparr>"

definition gap :: panel where
  "gap = rev (map gap_slice [0..<102])"

text \<open>Three liquid assets over 101 trading days, most recent first. All close at 1
  on every day, but the second asset closes at 4 on the last day.\<close>

definition spike_slice :: "nat \<Rightarrow> slice" where
  "spike_slice j = \<lparr>time = int j,
     cells = (\<lambda>f. case f of
        Close \<Rightarrow> [Fin 1, if j = 100 then Fin 4 else Fin 1, Fin 1]
      | Is_liquid \<Rightarrow> [Fin 1, Fin 1, Fin 1])\<rparr>"

definition spike :: panel where
  "spike = rev (map spike_slice [0..<101])"

text \<open>The same with the jump in the third asset.\<close>

definition spike_last_slice :: "nat \<Rightarrow> slice" where
  "spike_last_slice j = \<lparr>time = int j,
     cells = (\<lambda>f. case f of
        Close \<Rightarrow> [Fin 1, Fin 1, if j = 100 then Fin 4 else Fin 1]
      | Is_liquid \<Rightarrow> [Fin 1, Fin 1, Fin 1])\<rparr>"

definition spike_last :: panel where
  "spike_last = rev (map spike_last_slice [0..<101])"

section \<open>Lemmas\<close>

subsection \<open>Shapes of the arrays, and the arrays row by row\<close>

lemma length_loc_rev [simp]: "length (loc_rev f data) = length data"
  by (simp add: loc_rev_def)

lemma length_shift_time [simp]: "length (shift_time A) = length A"
  by (cases A) (simp_all add: shift_time_def)

lemma length_ew2 [simp]: "length (ew2 f A B) = min (length A) (length B)"
  by (simp add: ew2_def)

lemma length_rolling_values [simp]: "length (rolling_values w A) = length A"
  by (simp add: rolling_values_def)

lemma rolling_mean_Inr: "rolling_mean b w A = Inr B \<Longrightarrow> B = rolling_values w A"
  by (auto simp: rolling_mean_def split: if_splits)

lemma rolling_mean_returns:
  "rolling_mean b 100 (returns data) = Inr avg \<Longrightarrow> avg = avg_returns data"
  by (simp add: avg_returns_def rolling_mean_Inr)

lemma length_bc_time [simp]: "length (bc_time f A v) = min (length A) (length v)"
  by (simp add: bc_time_def)

lemma nth_ew2: "i < length A \<Longrightarrow> i < length B \<Longrightarrow> ew2 f A B ! i = map2 f (A ! i) (B ! i)"
  by (simp add: ew2_def)

lemma nth_bc_time:
  "i < length A \<Longrightarrow> i < length v \<Longrightarrow> bc_time f A v ! i = map (\<lambda>x. f x (v ! i)) (A ! i)"
  by (simp add: bc_time_def)

lemma length_gt0_arr [simp]: "length (gt0_arr L) = length L"
  by (simp add: gt0_arr_def)

lemma length_astype_int [simp]: "length (astype_int B) = length B"
  by (simp add: astype_int_def)

lemma length_is_liquid [simp]: "length (is_liquid data) = length data"
  by (simp add: is_liquid_def)

lemma length_prices [simp]: "length (prices data) = length data"
  by (simp add: prices_def)

lemma length_prices_shifted [simp]: "length (prices_shifted data) = length data"
  by (simp add: prices_shifted_def)

lemma length_returns [simp]: "length (returns data) = length data"
  by (simp add: returns_def)

lemma length_avg_returns [simp]: "length (avg_returns data) = length data"
  by (simp add: avg_returns_def)

lemma length_liq_avg_returns [simp]: "length (liq_avg_returns data) = length data"
  by (simp add: liq_avg_returns_def)

lemma length_liq_avg_returns_mean [simp]: "length (liq_avg_returns_mean data) = length data"
  by (simp add: liq_avg_returns_mean_def mean_asset_def where_arr_def)

lemma length_neutralized1 [simp]: "length (liq_avg_returns_neutralized1 data) = length data"
  by (simp add: liq_avg_returns_neutralized1_def)

lemma length_neutralized [simp]: "length (liq_avg_returns_neutralized data) = length data"
  by (simp add: liq_avg_returns_neutralized_def)

lemma length_abs_sum [simp]: "length (abs_sum data) = length data"
  by (simp add: abs_sum_def sum_asset_def abs_arr_def)

lemma length_weights [simp]: "length (weights data) = length data"
  by (simp add: weights_def fillna_def)

lemma mask_nth:
  "i < length data \<Longrightarrow> astype_int (gt0_arr (is_liquid data)) ! i = row_mask (is_liquid data ! i)"
  by (simp add: astype_int_def gt0_arr_def row_mask_def)

lemma liq_avg_returns_nth:
  "i < length data \<Longrightarrow>
   liq_avg_returns data ! i = row_liq_avg (is_liquid data ! i) (avg_returns data ! i)"
  by (simp add: liq_avg_returns_def nth_ew2 mask_nth row_liq_avg_def)

lemma liq_avg_returns_mean_nth:
  "i < length data \<Longrightarrow>
   liq_avg_returns_mean data ! i = row_mean (is_liquid data ! i) (avg_returns data ! i)"
  by (simp add: liq_avg_returns_mean_def mean_asset_def where_arr_def nth_ew2 gt0_arr_def
      liq_avg_returns_nth row_mean_def)

lemma neutralized_nth:
  "i < length data \<Longrightarrow>
   liq_avg_returns_neutralized data ! i
     = row_neutralized (is_liquid data ! i) (avg_returns data ! i)"
  by (simp add: liq_avg_returns_neutralized_def liq_avg_returns_neutralized1_def nth_ew2
      nth_bc_time mask_nth liq_avg_returns_nth liq_avg_returns_mean_nth row_neutralized_def)

lemma abs_sum_nth:
  "i < length data \<Longrightarrow>
   abs_sum data ! i = row_abs_sum (is_liquid data ! i) (avg_returns data ! i)"
  by (simp add: abs_sum_def sum_asset_def abs_arr_def neutralized_nth row_abs_sum_def)

lemma weights_nth:
  "i < length data \<Longrightarrow>
   weights data ! i = row_weights (is_liquid data ! i) (avg_returns data ! i)"
  by (simp add: weights_def fillna_def nth_bc_time neutralized_nth abs_sum_nth row_weights_def)

lemma step_in_returns:
  assumes ne: "data \<noteq> []" and b: "bottleneck \<longrightarrow> 100 \<le> length data"
  shows "step_in bottleneck data
    = Inr \<lparr>at_time = time (hd data), fractions = weights data ! (length data - 1)\<rparr>"
proof -
  from ne have w: "weights data \<noteq> []" by (metis length_weights length_0_conv)
  from ne have r: "returns data \<noteq> []" by (metis length_returns length_0_conv)
  have "rolling_mean bottleneck 100 (returns data) = Inr (rolling_values 100 (returns data))"
    using r b by (auto simp: rolling_mean_def)
  moreover have "last (weights data) = weights data ! (length data - 1)"
    using w by (simp add: last_conv_nth)
  moreover have "last (map time (rev data)) = time (hd data)"
    using ne by (simp add: last_map last_rev)
  ultimately show ?thesis using w by (simp add: step_in_def)
qed

lemma step_in_raises:
  assumes "data = [] \<or> (bottleneck \<and> length data < 100)"
  shows "step_in bottleneck data = Inl ValueError"
proof -
  have "returns data = [] \<longleftrightarrow> data = []" by (metis length_returns length_0_conv)
  with assms have "rolling_mean bottleneck 100 (returns data) = Inl ValueError"
    by (auto simp: rolling_mean_def)
  then show ?thesis by (simp add: step_in_def)
qed

lemma step_in_no_IndexError: "step_in bottleneck data \<noteq> Inl IndexError"
proof (cases "data = [] \<or> (bottleneck \<and> length data < 100)")
  case True
  then show ?thesis by (simp add: step_in_raises)
next
  case False
  then have "data \<noteq> []" and "bottleneck \<longrightarrow> 100 \<le> length data" by auto
  then show ?thesis by (simp add: step_in_returns)
qed

lemma step_nonempty:
  "data \<noteq> [] \<Longrightarrow>
   step data = Inr \<lparr>at_time = time (hd data), fractions = weights data ! (length data - 1)\<rparr>"
  by (simp add: step_def step_in_returns)

lemma step_empty: "step [] = Inl ValueError"
  by (simp add: step_def step_in_raises)

subsection \<open>Sums, and the cells of one row of weights\<close>

lemma fsum_Nil [simp]: "fsum [] = Fin 0"
  by (simp add: fsum_def)

lemma fsum_Cons [simp]: "fsum (x # xs) = fadd x (fsum xs)"
  by (simp add: fsum_def)

lemma dropna_Nil [simp]: "dropna [] = []"
  by (simp add: dropna_def)

lemma dropna_Cons [simp]: "dropna (x # xs) = (if x = NaN then dropna xs else x # dropna xs)"
  by (simp add: dropna_def)

lemma fadd_Fin_D: "fadd x y = Fin z \<Longrightarrow> is_fin x \<and> is_fin y"
  by (cases x; cases y) simp_all

lemma fsum_Fin_D: "fsum xs = Fin z \<Longrightarrow> x \<in> set xs \<Longrightarrow> is_fin x"
proof (induction xs arbitrary: z)
  case Nil
  then show ?case by simp
next
  case (Cons y ys)
  from Cons.prems(1) have fy: "is_fin y" and "is_fin (fsum ys)"
    using fadd_Fin_D by auto
  then obtain z' where "fsum ys = Fin z'" by (cases "fsum ys") simp_all
  with Cons.IH Cons.prems(2) fy show ?case by auto
qed

lemma fsum_all_fin:
  "(\<And>x. x \<in> set xs \<Longrightarrow> is_fin x) \<Longrightarrow> fsum xs = Fin (sum_list (map fin_val xs))"
proof (induction xs)
  case Nil
  then show ?case by simp
next
  case (Cons y ys)
  from Cons.prems have "is_fin y" by simp
  then obtain a where "y = Fin a" by (cases y) simp_all
  with Cons show ?case by simp
qed

lemma is_fin_conv: "is_fin x \<longleftrightarrow> (\<exists>a. x = Fin a)"
  by (cases x) simp_all

lemma fmul_one [simp]: "fmul (Fin 1) x = x"
  by (cases x) simp_all

lemma fmul_zero: "fmul (Fin 0) x = (if is_fin x then Fin 0 else NaN)"
  by (cases x) simp_all

lemma fdiv_zero_num: "fdiv (Fin 0) s = NaN \<or> fdiv (Fin 0) s = Fin 0"
  by (cases s) simp_all

lemma length_row_mask [simp]: "length (row_mask L) = length L"
  by (simp add: row_mask_def)

lemma length_row_liq_avg [simp]: "length (row_liq_avg L V) = min (length L) (length V)"
  by (simp add: row_liq_avg_def)

lemma length_row_neutralized [simp]:
  "length (row_neutralized L V) = min (length L) (length V)"
  by (simp add: row_neutralized_def)

lemma length_row_weights [simp]: "length (row_weights L V) = min (length L) (length V)"
  by (simp add: row_weights_def)

lemma row_mask_nth: "a < length L \<Longrightarrow> row_mask L ! a = Fin (if gt0 (L ! a) then 1 else 0)"
  by (simp add: row_mask_def)

lemma row_neutralized_nth:
  "a < length L \<Longrightarrow> a < length V \<Longrightarrow>
   row_neutralized L V ! a =
     (if gt0 (L ! a) then fsub (V ! a) (row_mean L V)
      else fmul (Fin 0) (fsub (fmul (Fin 0) (V ! a)) (row_mean L V)))"
  by (simp add: row_neutralized_def row_liq_avg_def row_mask_nth)

lemma row_weights_nth:
  "a < length L \<Longrightarrow> a < length V \<Longrightarrow>
   row_weights L V ! a =
     (if fdiv (row_neutralized L V ! a) (row_abs_sum L V) = NaN then Fin 0
      else fdiv (row_neutralized L V ! a) (row_abs_sum L V))"
  by (simp add: row_weights_def)

lemma row_weights_illiquid:
  assumes "a < length L" "a < length V" "\<not> gt0 (L ! a)"
  shows "row_weights L V ! a = Fin 0"
proof -
  have "row_neutralized L V ! a = Fin 0 \<or> row_neutralized L V ! a = NaN"
    using assms by (simp add: row_neutralized_nth fmul_zero)
  then show ?thesis
    using assms(1,2) fdiv_zero_num [of "row_abs_sum L V"]
    by (auto simp: row_weights_nth)
qed

lemma le0_not_gt0: "le0 x \<Longrightarrow> \<not> gt0 x"
  by (cases x) simp_all

lemma nansum_Nil [simp]: "nansum [] = Fin 0"
  by (simp add: nansum_def)

lemma nansum_Cons [simp]:
  "nansum (x # xs) = (if x = NaN then nansum xs else fadd x (nansum xs))"
  by (simp add: nansum_def)

lemma fabs_NaN_iff [simp]: "fabs x = NaN \<longleftrightarrow> x = NaN"
  by (cases x) simp_all

lemma nansum_abs_cases:
  "nansum (map fabs xs) = PInf \<or> (\<exists>q. 0 \<le> q \<and> nansum (map fabs xs) = Fin q)"
proof (induction xs)
  case Nil
  then show ?case by simp
next
  case (Cons x xs)
  then show ?case by (cases x) auto
qed

lemma nansum_abs_Fin:
  "nansum (map fabs xs) = Fin q \<Longrightarrow>
   (\<forall>x\<in>set xs. x = NaN \<or> is_fin x) \<and> q = sum_list (map (\<lambda>x. \<bar>fin_val x\<bar>) xs)"
proof (induction xs arbitrary: q)
  case Nil
  then show ?case by simp
next
  case (Cons x xs)
  show ?case
  proof (cases x)
    case (Fin a)
    with Cons.prems obtain q' where q': "nansum (map fabs xs) = Fin q'"
      by (cases "nansum (map fabs xs)") simp_all
    with Cons.IH have "(\<forall>x\<in>set xs. x = NaN \<or> is_fin x)"
      and "q' = sum_list (map (\<lambda>x. \<bar>fin_val x\<bar>) xs)" by auto
    with Fin q' Cons.prems show ?thesis by simp
  next
    case PInf
    with Cons.prems show ?thesis
      using nansum_abs_cases [of xs] by auto
  next
    case NInf
    with Cons.prems show ?thesis
      using nansum_abs_cases [of xs] by auto
  next
    case NaN
    with Cons show ?thesis by simp
  qed
qed

lemma row_weights_alt:
  "row_weights L V = map (\<lambda>x. fill0 (fdiv x (row_abs_sum L V))) (row_neutralized L V)"
  by (simp add: row_weights_def fill0_def)

lemma fdiv_PInf: "fill0 (fdiv x PInf) = Fin 0"
  by (cases x) (simp_all add: fill0_def)

lemma fill0_fdiv_zero: "x = NaN \<or> x = Fin 0 \<Longrightarrow> fill0 (fdiv x s) = Fin 0"
  using fdiv_zero_num [of s] by (auto simp: fill0_def)

lemma fill0_fdiv_Fin:
  "q \<noteq> 0 \<Longrightarrow> x = NaN \<or> is_fin x \<Longrightarrow> fill0 (fdiv x (Fin q)) = Fin (fin_val x / q)"
  by (cases x) (simp_all add: fill0_def)

lemma fsum_zeros: "\<forall>x\<in>set xs. x = Fin 0 \<Longrightarrow> fsum xs = Fin 0"
  by (induction xs) auto

lemma abs_sum_zero_entries:
  assumes "nansum (map fabs xs) = Fin 0" "x \<in> set xs"
  shows "x = NaN \<or> x = Fin 0"
proof -
  from nansum_abs_Fin [OF assms(1)]
  have nf: "\<forall>x\<in>set xs. x = NaN \<or> is_fin x"
    and z: "sum_list (map (\<lambda>x. \<bar>fin_val x\<bar>) xs) = 0" by auto
  have "\<forall>y\<in>set (map (\<lambda>x. \<bar>fin_val x\<bar>) xs). y = 0"
    using z by (subst (asm) sum_list_nonneg_eq_0_iff) auto
  then have "\<bar>fin_val x\<bar> = 0" using assms(2) by auto
  moreover from nf assms(2) have "x = NaN \<or> is_fin x" by blast
  ultimately show ?thesis by (cases x) auto
qed

lemma row_weights_zero_denominator:
  assumes "row_abs_sum L V = Fin 0" "w \<in> set (row_weights L V)"
  shows "w = Fin 0"
proof -
  from assms(2) obtain x where x: "x \<in> set (row_neutralized L V)"
    and w: "w = fill0 (fdiv x (Fin 0))"
    by (auto simp: row_weights_alt assms(1))
  from assms(1) x have "x = NaN \<or> x = Fin 0"
    unfolding row_abs_sum_def by (rule abs_sum_zero_entries)
  then show ?thesis unfolding w by (rule fill0_fdiv_zero)
qed

lemma row_weights_inf_denominator:
  assumes "row_abs_sum L V = PInf" "w \<in> set (row_weights L V)"
  shows "w = Fin 0"
  using assms by (auto simp: row_weights_alt fdiv_PInf)

lemma sum_list_div_const:
  fixes f :: "'a \<Rightarrow> rat"
  shows "sum_list (map (\<lambda>x. f x / q) xs) = sum_list (map f xs) / q"
  by (induction xs) (simp_all add: add_divide_distrib)

lemma row_weights_abs_sum_pos:
  assumes s: "row_abs_sum L V = Fin q" and q: "0 < q"
  shows "fsum (map fabs (row_weights L V)) = Fin 1"
proof -
  let ?ne = "row_neutralized L V"
  from s have e: "nansum (map fabs ?ne) = Fin q" by (simp add: row_abs_sum_def)
  from nansum_abs_Fin [OF e]
  have nf: "\<forall>x\<in>set ?ne. x = NaN \<or> is_fin x"
    and qs: "q = sum_list (map (\<lambda>x. \<bar>fin_val x\<bar>) ?ne)" by auto
  have "map fabs (row_weights L V) = map (\<lambda>x. Fin (\<bar>fin_val x\<bar> / q)) ?ne"
    using nf q by (simp add: row_weights_alt s fill0_fdiv_Fin)
  moreover have "fsum (map (\<lambda>x. Fin (\<bar>fin_val x\<bar> / q)) ?ne)
      = Fin (sum_list (map (\<lambda>x. \<bar>fin_val x\<bar> / q) ?ne))"
    by (subst fsum_all_fin) (auto simp: comp_def)
  ultimately show ?thesis
    using q qs by (simp add: sum_list_div_const)
qed

lemma row_weights_abs_sum:
  "fsum (map fabs (row_weights L V)) = Fin 0 \<or> fsum (map fabs (row_weights L V)) = Fin 1"
proof -
  consider "row_abs_sum L V = PInf" | "row_abs_sum L V = Fin 0"
    | q where "0 < q" "row_abs_sum L V = Fin q"
    using nansum_abs_cases [of "row_neutralized L V"]
    by (fastforce simp: row_abs_sum_def)
  then show ?thesis
  proof cases
    case 1
    then have "fsum (map fabs (row_weights L V)) = Fin 0"
      by (intro fsum_zeros) (auto dest: row_weights_inf_denominator)
    then show ?thesis ..
  next
    case 2
    then have "fsum (map fabs (row_weights L V)) = Fin 0"
      by (intro fsum_zeros) (auto dest: row_weights_zero_denominator)
    then show ?thesis ..
  next
    case 3
    then show ?thesis by (simp add: row_weights_abs_sum_pos)
  qed
qed

subsection \<open>Returns, the rolling window and the warm-up\<close>

lemma fdiv_NaN_right [simp]: "fdiv x NaN = NaN"
  by (cases x) simp_all

lemma fadd_NaN_right [simp]: "fadd x NaN = NaN"
  by (cases x) simp_all

lemma fmul_NaN_right [simp]: "fmul x NaN = NaN"
  by (cases x) simp_all

lemma fsub_NaN_left [simp]: "fsub NaN y = NaN"
  by (simp add: fsub_def)

lemma fsub_NaN_right [simp]: "fsub x NaN = NaN"
  by (simp add: fsub_def)

lemma prices_nth: "k < length data \<Longrightarrow> prices data ! k = cells (rev data ! k) Close"
  by (simp add: prices_def loc_rev_def)

lemma is_liquid_nth: "k < length data \<Longrightarrow> is_liquid data ! k = cells (rev data ! k) Is_liquid"
  by (simp add: is_liquid_def loc_rev_def)

lemma rect_rev_nth:
  "rect n data \<Longrightarrow> k < length data \<Longrightarrow>
   length (cells (rev data ! k) Close) = n \<and> length (cells (rev data ! k) Is_liquid) = n"
proof -
  assume r: "rect n data" and k: "k < length data"
  from k have "rev data ! k \<in> set data"
    by (metis length_rev nth_mem set_rev)
  with r show ?thesis by (simp add: rect_def list_all_iff)
qed

lemma length_prices_row: "rect n data \<Longrightarrow> k < length data \<Longrightarrow> length (prices data ! k) = n"
  by (simp add: prices_nth rect_rev_nth)

lemma length_is_liquid_row:
  "rect n data \<Longrightarrow> k < length data \<Longrightarrow> length (is_liquid data ! k) = n"
  by (simp add: is_liquid_nth rect_rev_nth)

lemma shift_time_nth:
  "k < length A \<Longrightarrow>
   shift_time A ! k = (if k = 0 then map (\<lambda>_. NaN) (A ! 0) else A ! (k - 1))"
  by (cases A) (auto simp: shift_time_def nth_Cons' nth_butlast)

lemma returns_nth:
  "k < length data \<Longrightarrow>
   returns data ! k =
     map2 (\<lambda>p s. fdiv (fsub p s) s) (prices data ! k)
       (if k = 0 then map (\<lambda>_. NaN) (prices data ! 0) else prices data ! (k - 1))"
  by (simp add: returns_def nth_ew2 prices_shifted_def shift_time_nth)

lemma length_returns_row: "rect n data \<Longrightarrow> k < length data \<Longrightarrow> length (returns data ! k) = n"
  by (cases "k = 0") (simp_all add: returns_nth length_prices_row)

lemma returns_cell:
  assumes "rect n data" "k < length data" "a < n"
  shows "returns data ! k ! a =
     (if k = 0 then NaN
      else fdiv (fsub (prices data ! k ! a) (prices data ! (k - 1) ! a)) (prices data ! (k - 1) ! a))"
  using assms by (cases "k = 0") (simp_all add: returns_nth length_prices_row)

lemma length_window [simp]: "length (window w A i a) = w"
  by (simp add: window_def)

lemma window_full:
  assumes "0 < w" "w - 1 \<le> i"
  shows "window w A i a = map (\<lambda>k. A ! k ! a) [i + 1 - w..<i + 1]"
proof (rule nth_equalityI)
  show "length (window w A i a) = length (map (\<lambda>k. A ! k ! a) [i + 1 - w..<i + 1])"
    using assms by (simp del: upt_Suc)
next
  fix j assume "j < length (window w A i a)"
  then have j: "j < w" by simp
  with assms have "i + j - (w - 1) = i + 1 - w + j" by arith
  with j assms show "window w A i a ! j = map (\<lambda>k. A ! k ! a) [i + 1 - w..<i + 1] ! j"
    by (simp add: window_def del: upt_Suc)
qed

lemma window_cong:
  assumes "\<And>k. k \<le> i \<Longrightarrow> A ! k = B ! k"
  shows "window w A i a = window w B i a"
  unfolding window_def
  by (rule map_cong [OF refl]) (use assms in auto)

lemma window_mean_NaN:
  assumes "NaN \<in> set win" "length win \<le> w"
  shows "window_mean w win = NaN"
proof -
  have "length (dropna win) < length win"
    unfolding dropna_def using assms(1) by (intro length_filter_less [of NaN]) auto
  with assms(2) show ?thesis by (simp add: window_mean_def)
qed

lemma avg_returns_nth:
  "i < length data \<Longrightarrow>
   avg_returns data ! i =
     map (\<lambda>a. window_mean 100 (window 100 (returns data) i a)) [0..<length (returns data ! i)]"
  by (simp add: avg_returns_def rolling_values_def)

lemma length_avg_returns_row:
  "rect n data \<Longrightarrow> i < length data \<Longrightarrow> length (avg_returns data ! i) = n"
  by (simp add: avg_returns_nth length_returns_row)

lemma avg_returns_cell:
  "rect n data \<Longrightarrow> i < length data \<Longrightarrow> a < n \<Longrightarrow>
   avg_returns data ! i ! a = window_mean 100 (window 100 (returns data) i a)"
  by (simp add: avg_returns_nth length_returns_row)

lemma avg_returns_warm_up:
  assumes r: "rect n data" and i: "i < length data" "i < 100" and a: "a < n"
  shows "avg_returns data ! i ! a = NaN"
proof -
  from i have "0 < length data" by (cases data) simp_all
  with r a have "returns data ! 0 ! a = NaN" by (simp add: returns_cell)
  then have "window 100 (returns data) i a ! 0 = NaN"
    using i by (simp add: window_def)
  then have "NaN \<in> set (window 100 (returns data) i a)"
    by (metis length_window nth_mem zero_less_numeral)
  then show ?thesis
    using r i(1) a by (simp add: avg_returns_cell window_mean_NaN)
qed

lemma row_weights_NaN_avg:
  assumes "a < length L" "a < length V" "V ! a = NaN"
  shows "row_weights L V ! a = Fin 0"
  using assms by (simp add: row_weights_nth row_neutralized_nth)

lemma length_weights_row:
  "rect n data \<Longrightarrow> i < length data \<Longrightarrow> length (weights data ! i) = n"
  by (simp add: weights_nth length_is_liquid_row length_avg_returns_row)

lemma weights_warm_up:
  assumes r: "rect n data" and i: "i < length data" "i < 100"
  shows "weights data ! i = replicate n (Fin 0)"
proof (rule nth_equalityI)
  show "length (weights data ! i) = length (replicate n (Fin 0))"
    using r i by (simp add: length_weights_row)
next
  fix a assume "a < length (weights data ! i)"
  then have a: "a < n" using r i by (simp add: length_weights_row)
  then show "weights data ! i ! a = replicate n (Fin 0) ! a"
    using r i
    by (simp add: weights_nth row_weights_NaN_avg length_is_liquid_row length_avg_returns_row
        avg_returns_warm_up)
qed

lemma weights_causal:
  assumes t: "take (Suc i) (rev P) = take (Suc i) (rev Q)"
    and i: "i < length P" "i < length Q"
  shows "weights P ! i = weights Q ! i"
proof -
  have eq: "rev P ! k = rev Q ! k" if "k \<le> i" for k
  proof -
    from that have "rev P ! k = take (Suc i) (rev P) ! k" by simp
    also have "\<dots> = take (Suc i) (rev Q) ! k" by (simp only: t)
    also from that have "\<dots> = rev Q ! k" by simp
    finally show ?thesis .
  qed
  have p: "prices P ! k = prices Q ! k" if "k \<le> i" for k
    using that i eq by (simp add: prices_nth)
  have ret: "returns P ! k = returns Q ! k" if "k \<le> i" for k
    using that i p [of k] p [of "k - 1"] p [of 0] by (simp add: returns_nth)
  have "avg_returns P ! i = avg_returns Q ! i"
    using i ret [of i] window_cong [of i "returns P" "returns Q" 100, OF ret]
    by (simp add: avg_returns_nth)
  moreover have "is_liquid P ! i = is_liquid Q ! i"
    using i eq by (simp add: is_liquid_nth)
  ultimately show ?thesis using i by (simp add: weights_nth)
qed

subsection \<open>The sample panel, evaluated\<close>

lemma length_demo [simp]: "length demo = 101"
  by (simp add: demo_def)

lemma rev_demo_nth: "k < 101 \<Longrightarrow> rev demo ! k = demo_slice k"
  by (simp add: demo_def del: upt_Suc)

lemma rect_demo: "rect 3 demo"
  by (simp add: rect_def list_all_iff demo_def demo_slice_def del: upt_Suc)

lemma demo_prices:
  "k < 101 \<Longrightarrow>
   prices demo ! k = [Fin 1, if k = 100 then Fin 2 else Fin 1, if 97 < k then Fin 5 else Fin 4]"
  by (simp add: prices_nth rev_demo_nth demo_slice_def)

lemma demo_returns:
  assumes "0 < k" "k < 101"
  shows "returns demo ! k =
    [Fin 0, if k = 100 then Fin 1 else Fin 0, if k = 98 then Fin (1 / 4) else Fin 0]"
proof -
  from assms have "k - 1 < 101" "k - 1 \<noteq> 100" by simp_all
  with assms show ?thesis
    by (auto simp add: returns_nth demo_prices fsub_def)
qed

lemma demo_window:
  "a < 3 \<Longrightarrow> window 100 (returns demo) 100 a =
     map (\<lambda>k. [Fin 0, if k = 100 then Fin 1 else Fin 0, if k = 98 then Fin (1 / 4) else Fin 0] ! a)
       [1..<101]"
proof -
  assume a: "a < 3"
  have "window 100 (returns demo) 100 a = map (\<lambda>k. returns demo ! k ! a) [100 + 1 - 100..<100 + 1]"
    by (rule window_full) simp_all
  also have "[100 + 1 - 100..<100 + 1] = [1..<101::nat]" by simp
  finally show ?thesis
    by (simp add: demo_returns del: upt_Suc cong: map_cong)
qed

lemma demo_avg_returns:
  "avg_returns demo ! 100 = [Fin 0, Fin (1 / 100), Fin (1 / 400)]"
proof -
  have l: "length (returns demo ! 100) = 3"
    by (simp add: length_returns_row [OF rect_demo])
  have "[0..<3] = [0, 1, 2]" by code_simp
  then have "avg_returns demo ! 100 =
    [window_mean 100 (map (\<lambda>k. Fin 0) [1..<101]),
     window_mean 100 (map (\<lambda>k. if k = 100 then Fin 1 else Fin 0) [1..<101]),
     window_mean 100 (map (\<lambda>k. if k = 98 then Fin (1 / 4) else Fin 0) [1..<101])]"
    by (simp add: avg_returns_nth l demo_window del: upt_Suc)
  moreover have "window_mean 100 (map (\<lambda>k. Fin 0) [1..<101]) = Fin 0" by code_simp
  moreover have "window_mean 100 (map (\<lambda>k. if k = 100 then Fin 1 else Fin 0) [1..<101])
      = Fin (1 / 100)" by code_simp
  moreover have "window_mean 100 (map (\<lambda>k. if k = 98 then Fin (1 / 4) else Fin 0) [1..<101])
      = Fin (1 / 400)" by code_simp
  ultimately show ?thesis by simp
qed

lemma demo_is_liquid: "is_liquid demo ! 100 = [Fin 1, Fin 1, Fin 0]"
  by (simp add: is_liquid_nth rev_demo_nth demo_slice_def)

lemma demo_weights: "weights demo ! 100 = [Fin (- 1 / 2), Fin (1 / 2), Fin 0]"
proof -
  have "row_weights [Fin 1, Fin 1, Fin 0] [Fin 0, Fin (1 / 100), Fin (1 / 400)]
      = [Fin (- 1 / 2), Fin (1 / 2), Fin 0]" by code_simp
  then show ?thesis by (simp add: weights_nth demo_is_liquid demo_avg_returns)
qed

lemma step_demo: "step demo = Inr \<lparr>at_time = 100, fractions = [Fin (- 1 / 2), Fin (1 / 2), Fin 0]\<rparr>"
proof -
  have "demo \<noteq> []" by (metis length_demo list.size(3) zero_neq_numeral)
  moreover have "hd demo = demo_slice 100"
    by (simp add: demo_def hd_rev last_map del: upt_Suc)
  ultimately show ?thesis
    by (simp add: step_nonempty demo_weights demo_slice_def)
qed

subsection \<open>Finite weights, and what step returns\<close>

lemma row_weights_finite:
  assumes "w \<in> set (row_weights L V)"
  shows "is_fin w"
proof -
  consider "row_abs_sum L V = PInf" | "row_abs_sum L V = Fin 0"
    | q where "0 < q" "row_abs_sum L V = Fin q"
    using nansum_abs_cases [of "row_neutralized L V"]
    by (fastforce simp: row_abs_sum_def)
  then show ?thesis
  proof cases
    case 1
    with assms show ?thesis by (auto dest: row_weights_inf_denominator)
  next
    case 2
    with assms show ?thesis by (auto dest: row_weights_zero_denominator)
  next
    case 3
    from 3(2) have "nansum (map fabs (row_neutralized L V)) = Fin q"
      by (simp add: row_abs_sum_def)
    from nansum_abs_Fin [OF this]
    have nf: "\<forall>x\<in>set (row_neutralized L V). x = NaN \<or> is_fin x" by simp
    from assms obtain x where "x \<in> set (row_neutralized L V)"
      and "w = fill0 (fdiv x (Fin q))"
      by (auto simp: row_weights_alt 3(2))
    with nf 3(1) show ?thesis by (simp add: fill0_fdiv_Fin)
  qed
qed

lemma last_row: "length A = length data \<Longrightarrow> data \<noteq> [] \<Longrightarrow> last A = A ! (length data - 1)"
proof -
  assume l: "length A = length data" and ne: "data \<noteq> []"
  then have "A \<noteq> []" by (metis length_0_conv)
  then have "last A = A ! (length A - 1)" by (rule last_conv_nth)
  with l show ?thesis by simp
qed

lemma last_rows:
  "data \<noteq> [] \<Longrightarrow> last (is_liquid data) = is_liquid data ! (length data - 1)"
  "data \<noteq> [] \<Longrightarrow> last (abs_sum data) = abs_sum data ! (length data - 1)"
  "data \<noteq> [] \<Longrightarrow> last (weights data) = weights data ! (length data - 1)"
  by (simp_all add: last_row)

lemma step_Inr_D:
  assumes "step data = Inr v"
  shows "data \<noteq> []" and "fractions v = weights data ! (length data - 1)"
    and "at_time v = time (hd data)"
proof -
  show ne: "data \<noteq> []" using assms step_empty by auto
  from step_nonempty [OF ne] assms
  show "fractions v = weights data ! (length data - 1)" and "at_time v = time (hd data)"
    by auto
qed

subsection \<open>The weights of the liquid assets\<close>

lemma liquid_part_Nil [simp]: "liquid_part [] xs = []" "liquid_part L [] = []"
  by (simp_all add: liquid_part_def)

lemma liquid_part_Cons [simp]:
  "liquid_part (l # L) (x # xs) = (if gt0 l then x # liquid_part L xs else liquid_part L xs)"
  by (simp add: liquid_part_def)

lemma set_liquid_part: "set (liquid_part L xs) \<subseteq> set xs"
  by (auto simp: liquid_part_def dest: set_zip_rightD)

lemma row_mask_Cons [simp]: "row_mask (l # L) = Fin (if gt0 l then 1 else 0) # row_mask L"
  by (simp add: row_mask_def)

lemma row_mask_Nil [simp]: "row_mask [] = []"
  by (simp add: row_mask_def)

lemma dropna_where_liquid:
  "dropna (map2 (\<lambda>x b. if b then x else NaN) (map2 fmul (row_mask L) V) (map gt0 L))
     = dropna (liquid_part L V)"
proof (induction L arbitrary: V)
  case Nil
  then show ?case by simp
next
  case (Cons l L)
  then show ?case by (cases V) simp_all
qed

lemma row_mean_liquid_part: "row_mean L V = nanmean (liquid_part L V)"
  by (simp add: row_mean_def row_liq_avg_def nanmean_def dropna_where_liquid)

lemma liquid_part_map2:
  assumes "\<And>l v. gt0 l \<Longrightarrow> g l v = h v"
  shows "liquid_part L (map2 g L V) = map h (liquid_part L V)"
proof (induction L arbitrary: V)
  case Nil
  then show ?case by simp
next
  case (Cons l L)
  then show ?case using assms by (cases V) simp_all
qed

lemma row_neutralized_map2:
  "row_neutralized L V =
     map2 (\<lambda>l v. fmul (Fin (if gt0 l then 1 else 0))
                   (fsub (fmul (Fin (if gt0 l then 1 else 0)) v) (row_mean L V))) L V"
  by (rule nth_equalityI) (simp_all add: row_neutralized_nth fmul_zero)

lemma liquid_part_neutralized:
  "liquid_part L (row_neutralized L V) = map (\<lambda>v. fsub v (row_mean L V)) (liquid_part L V)"
  by (subst row_neutralized_map2, rule liquid_part_map2) simp

lemma row_weights_map2:
  "row_weights L V =
     map2 (\<lambda>l v. fill0 (fdiv (fmul (Fin (if gt0 l then 1 else 0))
                   (fsub (fmul (Fin (if gt0 l then 1 else 0)) v) (row_mean L V)))
                   (row_abs_sum L V))) L V"
  by (subst row_weights_alt, subst row_neutralized_map2) (simp add: comp_def case_prod_unfold)

lemma liquid_part_weights:
  "liquid_part L (row_weights L V)
     = map (\<lambda>v. fill0 (fdiv (fsub v (row_mean L V)) (row_abs_sum L V))) (liquid_part L V)"
  by (subst row_weights_map2, rule liquid_part_map2) simp

lemma fdiv_Fin_Fin_D: "fdiv (Fin z) (Fin k) = Fin m \<Longrightarrow> k \<noteq> 0 \<and> m = z / k"
  by (auto split: if_splits)

lemma dropna_fin: "\<forall>v\<in>set xs. v = NaN \<or> is_fin v \<Longrightarrow> x \<in> set (dropna xs) \<Longrightarrow> is_fin x"
  by (auto simp: dropna_def)

lemma nanmean_Fin_D:
  assumes "nanmean xs = Fin m"
  shows "length (dropna xs) \<noteq> 0"
    and "m = sum_list (map fin_val (dropna xs)) / of_nat (length (dropna xs))"
    and "\<forall>x\<in>set (dropna xs). is_fin x"
proof -
  from assms obtain z where z: "fsum (dropna xs) = Fin z"
    unfolding nanmean_def by (cases "fsum (dropna xs)") simp_all
  then show f: "\<forall>x\<in>set (dropna xs). is_fin x" by (auto dest: fsum_Fin_D)
  then have "z = sum_list (map fin_val (dropna xs))"
    using z fsum_all_fin [of "dropna xs"] by simp
  moreover from assms z
  have "of_nat (length (dropna xs)) \<noteq> (0::rat) \<and> m = z / of_nat (length (dropna xs))"
    unfolding nanmean_def by (intro fdiv_Fin_Fin_D) simp
  ultimately show "length (dropna xs) \<noteq> 0"
    and "m = sum_list (map fin_val (dropna xs)) / of_nat (length (dropna xs))" by auto
qed

lemma fsum_demeaned:
  assumes "\<forall>v\<in>set xs. v = NaN \<or> is_fin v" and "q \<noteq> 0"
  shows "fsum (map (\<lambda>v. fill0 (fdiv (fsub v (Fin m)) (Fin q))) xs)
      = Fin ((sum_list (map fin_val (dropna xs)) - of_nat (length (dropna xs)) * m) / q)"
  using assms(1)
proof (induction xs)
  case Nil
  then show ?case by simp
next
  case (Cons x xs)
  show ?case
  proof (cases "x = NaN")
    case True
    with Cons show ?thesis by (simp add: fill0_def)
  next
    case False
    with Cons.prems obtain a where "x = Fin a" by (cases x) auto
    with Cons assms(2) show ?thesis
      by (simp add: fill0_def fsub_def diff_divide_distrib add_divide_distrib algebra_simps)
  qed
qed

lemma fsub_not_fin: "\<not> is_fin m \<Longrightarrow> \<not> is_fin (fsub v m)"
  by (cases v; cases m) (simp_all add: fsub_def)

lemma fsub_fin_D: "fsub v (Fin m) = NaN \<or> is_fin (fsub v (Fin m)) \<Longrightarrow> v = NaN \<or> is_fin v"
  by (cases v) (simp_all add: fsub_def)

lemma row_liquid_weights_sum: "fsum (liquid_part L (row_weights L V)) = Fin 0"
proof -
  let ?lv = "liquid_part L V" and ?m = "row_mean L V" and ?s = "row_abs_sum L V"
  have sub: "fsub v ?m \<in> set (row_neutralized L V)" if "v \<in> set ?lv" for v
  proof -
    from that have "fsub v ?m \<in> set (liquid_part L (row_neutralized L V))"
      by (simp add: liquid_part_neutralized)
    then show ?thesis using set_liquid_part by blast
  qed
  consider "?s = PInf" | "?s = Fin 0" | q where "0 < q" "?s = Fin q"
    using nansum_abs_cases [of "row_neutralized L V"]
    by (fastforce simp: row_abs_sum_def)
  then have "fsum (map (\<lambda>v. fill0 (fdiv (fsub v ?m) ?s)) ?lv) = Fin 0"
  proof cases
    case 1
    then show ?thesis by (intro fsum_zeros) (simp add: fdiv_PInf)
  next
    case 2
    have "fill0 (fdiv (fsub v ?m) ?s) = Fin 0" if "v \<in> set ?lv" for v
      using abs_sum_zero_entries [OF 2 [unfolded row_abs_sum_def] sub [OF that]]
      by (rule fill0_fdiv_zero)
    then show ?thesis by (intro fsum_zeros) simp
  next
    case 3
    from 3(2) have "nansum (map fabs (row_neutralized L V)) = Fin q"
      by (simp add: row_abs_sum_def)
    from nansum_abs_Fin [OF this] sub
    have nf: "fsub v ?m = NaN \<or> is_fin (fsub v ?m)" if "v \<in> set ?lv" for v
      using that by blast
    show ?thesis
    proof (cases "is_fin ?m")
      case False
      have "fill0 (fdiv (fsub v ?m) ?s) = Fin 0" if "v \<in> set ?lv" for v
        using nf [OF that] fsub_not_fin [OF False, of v] by (simp add: fill0_def)
      then show ?thesis by (intro fsum_zeros) simp
    next
      case True
      then obtain m where m: "?m = Fin m" by (auto simp: is_fin_conv)
      then have nm: "nanmean ?lv = Fin m" by (simp add: row_mean_liquid_part)
      have lv: "\<forall>v\<in>set ?lv. v = NaN \<or> is_fin v"
        using nf fsub_fin_D unfolding m by blast
      from nanmean_Fin_D [OF nm]
      have "length (dropna ?lv) \<noteq> 0"
        and "m = sum_list (map fin_val (dropna ?lv)) / of_nat (length (dropna ?lv))" by auto
      then have "sum_list (map fin_val (dropna ?lv)) - of_nat (length (dropna ?lv)) * m = 0"
        by simp
      with fsum_demeaned [OF lv, of q m] 3 show ?thesis by (simp add: m)
    qed
  qed
  then show ?thesis by (simp add: liquid_part_weights)
qed

subsection \<open>Time steps with a full window of returns\<close>

lemma window_mean_all_fin:
  assumes "\<forall>x\<in>set win. is_fin x" and "length win = w" and "0 < w"
  shows "window_mean w win = Fin (sum_list (map fin_val win) / of_nat w)"
proof -
  from assms(1) have "dropna win = win"
    unfolding dropna_def by (intro filter_True) auto
  with assms fsum_all_fin [of win] show ?thesis
    by (simp add: window_mean_def nanmean_def)
qed

lemma observed_avg_fin:
  assumes r: "rect n data" and i: "i < length data" and o: "observed data n i" and a: "a < n"
  shows "is_fin (avg_returns data ! i ! a)"
proof -
  from o have i99: "99 \<le> i" by (simp add: observed_def)
  then have w: "window 100 (returns data) i a = map (\<lambda>k. returns data ! k ! a) [i + 1 - 100..<i + 1]"
    by (intro window_full) simp_all
  from o a have "\<forall>k\<in>set [i - 99..<Suc i]. is_fin (returns data ! k ! a)"
    by (simp add: observed_def list_all_iff)
  moreover from i99 have "[i + 1 - 100..<i + 1] = [i - 99..<Suc i]" by simp
  ultimately have "\<forall>x\<in>set (window 100 (returns data) i a). is_fin x"
    unfolding w by (simp del: upt_Suc)
  then have "window_mean 100 (window 100 (returns data) i a)
      = Fin (sum_list (map fin_val (window 100 (returns data) i a)) / of_nat 100)"
    by (rule window_mean_all_fin) simp_all
  with r i a show ?thesis by (simp add: avg_returns_cell)
qed

lemma nansum_abs_all_fin:
  "\<forall>x\<in>set xs. is_fin x \<Longrightarrow> \<exists>q. nansum (map fabs xs) = Fin q"
proof (induction xs)
  case Nil
  then show ?case by simp
next
  case (Cons x xs)
  then obtain a q where "x = Fin a" "nansum (map fabs xs) = Fin q"
    by (cases x) auto
  then show ?case by simp
qed

lemma row_mean_fin:
  assumes "length L = length V" and "\<forall>v\<in>set V. is_fin v" and "a < length L" and "gt0 (L ! a)"
  shows "is_fin (row_mean L V)"
proof -
  let ?lv = "liquid_part L V"
  have fin: "\<forall>v\<in>set ?lv. is_fin v" using set_liquid_part assms(2) by blast
  then have d: "dropna ?lv = ?lv"
    unfolding dropna_def by (intro filter_True) auto
  have "(L ! a, V ! a) \<in> set (zip L V)"
    using assms(1,3) by (auto simp: set_zip)
  with assms(4) have "V ! a \<in> set ?lv"
    by (force simp: liquid_part_def)
  then have "length ?lv \<noteq> 0" by auto
  with fin d fsum_all_fin [of ?lv] show ?thesis
    by (simp add: row_mean_liquid_part nanmean_def)
qed

lemma row_neutralized_fin:
  assumes "length L = length V" and "\<forall>v\<in>set V. is_fin v" and "a < length L" and "gt0 (L ! a)"
  shows "\<forall>x\<in>set (row_neutralized L V). is_fin x"
proof -
  from row_mean_fin [OF assms] obtain m where m: "row_mean L V = Fin m"
    by (auto simp: is_fin_conv)
  have "is_fin (row_neutralized L V ! b)" if "b < length V" for b
  proof -
    from that assms(2) have "is_fin (V ! b)" by simp
    then obtain c where "V ! b = Fin c" by (auto simp: is_fin_conv)
    with that assms(1) show ?thesis by (simp add: row_neutralized_nth m fsub_def)
  qed
  with assms(1) show ?thesis by (simp add: all_set_conv_all_nth)
qed

lemma row_zero_sum_only_if:
  assumes len: "length L = length V" and fin: "\<forall>v\<in>set V. is_fin v"
    and z: "fsum (map fabs (row_weights L V)) = Fin 0"
  shows "(\<forall>x\<in>set (row_neutralized L V). x = Fin 0) \<or> (\<forall>l\<in>set L. \<not> gt0 l)"
proof (cases "\<forall>l\<in>set L. \<not> gt0 l")
  case True
  then show ?thesis ..
next
  case False
  then obtain a where a: "a < length L" "gt0 (L ! a)" by (auto simp: in_set_conv_nth)
  from row_neutralized_fin [OF len fin a]
  have nf: "\<forall>x\<in>set (row_neutralized L V). is_fin x" .
  from nansum_abs_all_fin [OF nf] obtain q where q: "row_abs_sum L V = Fin q"
    by (auto simp: row_abs_sum_def)
  have "0 \<le> q" using nansum_abs_cases [of "row_neutralized L V"] q
    by (auto simp: row_abs_sum_def)
  moreover have "\<not> 0 < q" using row_weights_abs_sum_pos [OF q] z by auto
  ultimately have "row_abs_sum L V = Fin 0" using q by simp
  then have "x = NaN \<or> x = Fin 0" if "x \<in> set (row_neutralized L V)" for x
    using that unfolding row_abs_sum_def by (rule abs_sum_zero_entries)
  with nf have "\<forall>x\<in>set (row_neutralized L V). x = Fin 0" by fastforce
  then show ?thesis ..
qed

subsection \<open>The flat panel, evaluated\<close>

lemma window_last:
  "window 100 A 100 a = map (\<lambda>k. A ! k ! a) [1..<101]"
proof -
  have "window 100 A 100 a = map (\<lambda>k. A ! k ! a) [100 + 1 - 100..<100 + 1]"
    by (rule window_full) simp_all
  also have "[100 + 1 - 100..<100 + 1] = [1..<101::nat]" by simp
  finally show ?thesis .
qed

lemma length_flat [simp]: "length flat = 101"
  by (simp add: flat_def)

lemma rev_flat_nth: "k < 101 \<Longrightarrow> rev flat ! k = flat_slice k"
  by (simp add: flat_def del: upt_Suc)

lemma rect_flat: "rect 2 flat"
  by (simp add: rect_def list_all_iff flat_def flat_slice_def del: upt_Suc)

lemma flat_returns:
  assumes "0 < k" "k < 101"
  shows "returns flat ! k = [Fin 0, Fin 0]"
proof -
  from assms have "k - 1 < 101" by simp
  with assms show ?thesis
    by (simp add: returns_nth prices_nth rev_flat_nth flat_slice_def fsub_def)
qed

lemma flat_window:
  "window 100 (returns flat) 100 a = map (\<lambda>k. [Fin 0, Fin 0] ! a) [1..<101]"
  unfolding window_last by (simp add: flat_returns del: upt_Suc cong: map_cong)

lemma flat_avg_returns: "avg_returns flat ! 100 = [Fin 0, Fin 0]"
proof -
  have l: "length (returns flat ! 100) = 2"
    by (simp add: length_returns_row [OF rect_flat])
  have idx: "[0..<length (returns flat ! 100)] = [0, 1]" unfolding l by code_simp
  have "avg_returns flat ! 100 =
    [window_mean 100 (map (\<lambda>k. Fin 0) [1..<101]), window_mean 100 (map (\<lambda>k. Fin 0) [1..<101])]"
    by (simp add: avg_returns_nth idx flat_window del: upt_Suc)
  moreover have "window_mean 100 (map (\<lambda>k. Fin 0) [1..<101]) = Fin 0" by code_simp
  ultimately show ?thesis by simp
qed

lemma flat_is_liquid: "is_liquid flat ! 100 = [Fin 1, Fin 1]"
  by (simp add: is_liquid_nth rev_flat_nth flat_slice_def)

lemma flat_neutralized: "liq_avg_returns_neutralized flat ! 100 = [Fin 0, Fin 0]"
proof -
  have "row_neutralized [Fin 1, Fin 1] [Fin 0, Fin 0] = [Fin 0, Fin 0]" by code_simp
  then show ?thesis by (simp add: neutralized_nth flat_is_liquid flat_avg_returns)
qed

lemma flat_weights: "weights flat ! 100 = [Fin 0, Fin 0]"
proof -
  have "row_weights [Fin 1, Fin 1] [Fin 0, Fin 0] = [Fin 0, Fin 0]" by code_simp
  then show ?thesis by (simp add: weights_nth flat_is_liquid flat_avg_returns)
qed

lemma flat_abs_sum: "abs_sum flat ! 100 = Fin 0"
proof -
  have "row_abs_sum [Fin 1, Fin 1] [Fin 0, Fin 0] = Fin 0" by code_simp
  then show ?thesis by (simp add: abs_sum_nth flat_is_liquid flat_avg_returns)
qed

lemma observed_demo: "observed demo 3 100"
  by (auto simp: observed_def list_all_iff demo_returns numeral_3_eq_3 less_Suc_eq
      simp del: upt_Suc)

lemma observed_flat: "observed flat 2 100"
  by (auto simp: observed_def list_all_iff flat_returns numeral_2_eq_2 less_Suc_eq
      simp del: upt_Suc)

lemma demo_abs_sum: "abs_sum demo ! 100 = Fin (1 / 100)"
proof -
  have "row_abs_sum [Fin 1, Fin 1, Fin 0] [Fin 0, Fin (1 / 100), Fin (1 / 400)] = Fin (1 / 100)"
    by code_simp
  then show ?thesis by (simp add: abs_sum_nth demo_is_liquid demo_avg_returns)
qed

subsection \<open>The average of observed returns\<close>

lemma fdiv_by_zero_not_fin: "\<not> is_fin (fdiv x (Fin 0))"
  by (cases x) simp_all

lemma avg_returns_observed:
  assumes r: "rect n data" and i: "i < length data" "99 \<le> i" and a: "a < n"
    and f: "\<forall>k\<in>set [i - 99..<Suc i]. is_fin (returns data ! k ! a)"
  shows "avg_returns data ! i ! a
     = Fin (sum_list (map (\<lambda>k. fin_val (returns data ! k ! a)) [i - 99..<Suc i]) / 100)"
proof -
  from i(2) have "window 100 (returns data) i a
      = map (\<lambda>k. returns data ! k ! a) [i + 1 - 100..<i + 1]"
    by (intro window_full) simp_all
  moreover from i(2) have "[i + 1 - 100..<i + 1] = [i - 99..<Suc i]" by simp
  ultimately have w: "window 100 (returns data) i a = map (\<lambda>k. returns data ! k ! a) [i - 99..<Suc i]"
    by simp
  from f have "\<forall>x\<in>set (window 100 (returns data) i a). is_fin x"
    unfolding w by (simp del: upt_Suc)
  then have "window_mean 100 (window 100 (returns data) i a)
      = Fin (sum_list (map fin_val (window 100 (returns data) i a)) / of_nat 100)"
    by (rule window_mean_all_fin) simp_all
  with r i(1) a show ?thesis
    by (simp add: avg_returns_cell w comp_def del: upt_Suc)
qed

lemma halted_returns: "returns halted ! 1 ! 0 = PInf"
proof -
  have "rect 1 halted" by (simp add: rect_def halted_def)
  moreover have "prices halted ! 0 ! 0 = Fin 0" "prices halted ! 1 ! 0 = Fin 3"
    by (simp_all add: prices_def loc_rev_def halted_def)
  ultimately show ?thesis
    using returns_cell [of 1 halted 1 0] by (simp add: halted_def fsub_def)
qed

subsection \<open>The order of the time axis, and the walk forward\<close>

lemma descending_rev: "descending data \<Longrightarrow> ascending (rev data)"
  by (simp add: descending_def ascending_def sorted_wrt_rev)

lemma ascending_rev: "ascending data \<Longrightarrow> descending (rev data)"
  by (simp add: descending_def ascending_def sorted_wrt_rev)

lemma ascending_nth_less:
  "ascending A \<Longrightarrow> i < j \<Longrightarrow> j < length A \<Longrightarrow> time (A ! i) < time (A ! j)"
  unfolding ascending_def by (rule sorted_wrt_nth_less)

lemma descending_nth_less:
  "descending A \<Longrightarrow> i < j \<Longrightarrow> j < length A \<Longrightarrow> time (A ! j) < time (A ! i)"
  unfolding descending_def by (rule sorted_wrt_nth_less)

lemma ascending_distinct: "ascending A \<Longrightarrow> distinct (map time A)"
proof -
  assume "ascending A"
  then have "sorted_wrt (<) (map time A)"
    by (simp add: ascending_def sorted_wrt_map)
  then show ?thesis by (simp add: strict_sorted_iff)
qed

lemma ascending_filter_takeWhile:
  "ascending A \<Longrightarrow> filter (\<lambda>s. time s \<le> t) A = takeWhile (\<lambda>s. time s \<le> t) A"
proof (induction A)
  case Nil
  then show ?case by simp
next
  case (Cons x xs)
  then have lt: "\<forall>u\<in>set xs. time x < time u" and "ascending xs"
    by (simp_all add: ascending_def)
  show ?case
  proof (cases "time x \<le> t")
    case True
    with Cons.IH [OF \<open>ascending xs\<close>] show ?thesis by simp
  next
    case False
    with lt have "filter (\<lambda>s. time s \<le> t) xs = []"
      by (fastforce simp: filter_empty_conv)
    with False show ?thesis by simp
  qed
qed

lemma ascending_prefix:
  fixes t :: int
  assumes asc: "ascending A" and i: "i < length A"
    and m_def: "m = length (takeWhile (\<lambda>s. time s \<le> t) A)"
  shows "time (A ! i) \<le> t \<longleftrightarrow> i < m"
proof
  assume le: "time (A ! i) \<le> t"
  show "i < m"
  proof (rule ccontr)
    assume "\<not> i < m"
    then have mi: "m \<le> i" by simp
    with i have "m < length A" by simp
    then have nm: "\<not> time (A ! m) \<le> t"
      unfolding m_def by (rule nth_length_takeWhile)
    with le have "m \<noteq> i" by auto
    with mi have "m < i" by simp
    from ascending_nth_less [OF asc this i] le nm show False by simp
  qed
next
  assume "i < m"
  then have "A ! i \<in> set (takeWhile (\<lambda>s. time s \<le> t) A)"
    unfolding m_def by (metis nth_mem takeWhile_nth)
  then show "time (A ! i) \<le> t" by (rule set_takeWhileD [THEN conjunct2])
qed

lemma weight_at_walk_forward:
  assumes d: "descending P"
  shows "weight_at P t = walk_forward P t"
proof -
  let ?A = "rev P" and ?U = "up_to t P"
  define m where "m = length (takeWhile (\<lambda>s. time s \<le> t) ?A)"
  have asc: "ascending ?A" using d by (rule descending_rev)
  have dist: "distinct (map time ?A)" using asc by (rule ascending_distinct)
  have revU: "rev ?U = take m ?A"
    unfolding up_to_def m_def rev_filter ascending_filter_takeWhile [OF asc]
    by (rule takeWhile_eq_take)
  have mle: "m \<le> length P" unfolding m_def using length_takeWhile_le [of _ ?A] by simp
  have lenU: "length ?U = m"
    using arg_cong [OF revU, of length] mle by simp
  have pre: "time (?A ! i) \<le> t \<longleftrightarrow> i < m" if "i < length P" for i
    using asc that m_def by (intro ascending_prefix) simp_all
  have len: "length (map time ?A) = length (weights P)" by simp
  show ?thesis
  proof (cases "m = 0")
    case True
    then have "?U = []" using lenU by simp
    then have "walk_forward P t = None" by (simp add: walk_forward_def step_empty)
    moreover have "t \<notin> set (map time ?A)"
    proof
      assume "t \<in> set (map time ?A)"
      then obtain i where "i < length P" "time (?A ! i) = t"
        by (auto simp: in_set_conv_nth simp del: set_rev)
      with pre [of i] True show False by simp
    qed
    then have "weight_at P t = None"
      unfolding weight_at_def using map_of_zip_is_None [OF len] by simp
    ultimately show ?thesis by simp
  next
    case False
    then have m1: "m - 1 < m" "Suc (m - 1) = m" by simp_all
    from False lenU have ne: "?U \<noteq> []" by auto
    have "hd ?U = last (rev ?U)" using ne by (simp add: last_rev)
    also have "\<dots> = take m ?A ! (m - 1)"
    proof -
      have "take m ?A \<noteq> []" using False mle by auto
      then have "last (take m ?A) = take m ?A ! (length (take m ?A) - 1)"
        by (rule last_conv_nth)
      with mle show ?thesis by (simp add: revU)
    qed
    also have "\<dots> = ?A ! (m - 1)" using m1 by simp
    finally have hd: "hd ?U = ?A ! (m - 1)" .
    have "take (Suc (m - 1)) (rev ?U) = take (Suc (m - 1)) ?A"
      unfolding m1 revU by simp
    then have w: "weights ?U ! (m - 1) = weights P ! (m - 1)"
      using m1 mle lenU by (intro weights_causal) simp_all
    have st: "step ?U = Inr \<lparr>at_time = time (?A ! (m - 1)), fractions = weights P ! (m - 1)\<rparr>"
      using step_nonempty [OF ne] w by (simp add: hd lenU)
    have im: "m - 1 < length P" using m1 mle by simp
    show ?thesis
    proof (cases "time (?A ! (m - 1)) = t")
      case True
      have "map_of (zip (map time ?A) (weights P)) (map time ?A ! (m - 1))
          = Some (weights P ! (m - 1))"
        using len dist im by (intro map_of_zip_nth) simp_all
      then have "weight_at P t = Some (weights P ! (m - 1))"
        using True im by (simp add: weight_at_def)
      with st True show ?thesis by (simp add: walk_forward_def)
    next
      case neq: False
      have "t \<notin> set (map time ?A)"
      proof
        assume "t \<in> set (map time ?A)"
        then obtain j where j: "j < length P" "time (?A ! j) = t"
          by (auto simp: in_set_conv_nth simp del: set_rev)
        with pre [of j] have "j < m" by simp
        with neq j have "j < m - 1" by (cases "j = m - 1") auto
        from ascending_nth_less [OF asc this] im
        have "time (?A ! j) < time (?A ! (m - 1))" by simp
        moreover from pre [OF im] m1 have "time (?A ! (m - 1)) \<le> t" by simp
        ultimately show False using j by simp
      qed
      then have "weight_at P t = None"
        unfolding weight_at_def using map_of_zip_is_None [OF len] by simp
      with st neq show ?thesis by (simp add: walk_forward_def)
    qed
  qed
qed

lemma descending_Max:
  assumes "descending data" and "data \<noteq> []"
  shows "Max (time ` set data) = time (hd data)"
proof -
  from assms(2) obtain x xs where x: "data = x # xs" by (cases data) auto
  with assms(1) have "\<forall>u\<in>set xs. time u < time x" by (simp add: descending_def)
  then have "Max (insert (time x) (time ` set xs)) = time x"
    by (intro Max_insert2) auto
  with x show ?thesis by simp
qed

lemma up_to_all: "\<forall>s\<in>set data. time s \<le> t \<Longrightarrow> up_to t data = data"
  by (simp add: up_to_def)

lemma descending_up_to_hd:
  assumes "descending data" and "data \<noteq> []"
  shows "up_to (time (hd data)) data = data"
proof -
  from assms(2) obtain x xs where x: "data = x # xs" by (cases data) auto
  with assms(1) have "\<forall>u\<in>set xs. time u < time x" by (simp add: descending_def)
  with x show ?thesis by (intro up_to_all) auto
qed

subsection \<open>The sample panel in both orders\<close>

lemma descending_demo: "descending demo"
  by (simp add: demo_def demo_slice_def descending_def sorted_wrt_rev sorted_wrt_map
      del: upt_Suc)

lemma demo_times: "s \<in> set demo \<Longrightarrow> time s \<le> 100"
  by (auto simp: demo_def demo_slice_def simp del: upt_Suc)

lemma demo_nonempty: "demo \<noteq> []"
  by (metis length_demo list.size(3) zero_neq_numeral)

lemma up_to_later:
  assumes "time s = 101"
  shows "up_to 100 (s # demo) = demo" and "descending (s # demo)"
proof -
  have "up_to 100 demo = demo" by (intro up_to_all) (simp add: demo_times)
  with assms show "up_to 100 (s # demo) = demo" by (simp add: up_to_def)
  from assms descending_demo demo_times show "descending (s # demo)"
    by (fastforce simp: descending_def)
qed

text \<open>The sample panel supplied oldest first.\<close>

lemma rev_rev_demo_nth: "k < 101 \<Longrightarrow> rev (rev demo) ! k = demo_slice (100 - k)"
  by (simp add: demo_def rev_nth del: upt_Suc)

lemma asc_demo_prices:
  "k < 101 \<Longrightarrow>
   prices (rev demo) ! k = [Fin 1, if k = 0 then Fin 2 else Fin 1, if k < 3 then Fin 5 else Fin 4]"
  by (auto simp add: prices_nth rev_rev_demo_nth demo_slice_def simp del: rev_rev_ident)

lemma asc_demo_returns:
  assumes "0 < k" "k < 101"
  shows "returns (rev demo) ! k =
    [Fin 0, if k = 1 then Fin (- 1 / 2) else Fin 0, if k = 3 then Fin (- 1 / 5) else Fin 0]"
proof -
  from assms have "k - 1 < 101" by simp
  with assms show ?thesis
    by (auto simp add: returns_nth asc_demo_prices fsub_def)
qed

lemma asc_demo_window:
  "window 100 (returns (rev demo)) 100 a =
     map (\<lambda>k. [Fin 0, if k = 1 then Fin (- 1 / 2) else Fin 0,
                if k = 3 then Fin (- 1 / 5) else Fin 0] ! a) [1..<101]"
  unfolding window_last by (simp add: asc_demo_returns del: upt_Suc cong: map_cong)

lemma rect_asc_demo: "rect 3 (rev demo)"
  using rect_demo by (simp add: rect_def list_all_iff)

lemma asc_demo_avg_returns:
  "avg_returns (rev demo) ! 100 = [Fin 0, Fin (- 1 / 200), Fin (- 1 / 500)]"
proof -
  have l: "length (returns (rev demo) ! 100) = 3"
    by (simp add: length_returns_row [OF rect_asc_demo])
  have idx: "[0..<length (returns (rev demo) ! 100)] = [0, 1, 2]" unfolding l by code_simp
  have "avg_returns (rev demo) ! 100 =
    [window_mean 100 (map (\<lambda>k. Fin 0) [1..<101]),
     window_mean 100 (map (\<lambda>k. if k = 1 then Fin (- 1 / 2) else Fin 0) [1..<101]),
     window_mean 100 (map (\<lambda>k. if k = 3 then Fin (- 1 / 5) else Fin 0) [1..<101])]"
    by (simp add: avg_returns_nth idx asc_demo_window del: upt_Suc)
  moreover have "window_mean 100 (map (\<lambda>k. Fin 0) [1..<101]) = Fin 0" by code_simp
  moreover have "window_mean 100 (map (\<lambda>k. if k = 1 then Fin (- 1 / 2) else Fin 0) [1..<101])
      = Fin (- 1 / 200)" by code_simp
  moreover have "window_mean 100 (map (\<lambda>k. if k = 3 then Fin (- 1 / 5) else Fin 0) [1..<101])
      = Fin (- 1 / 500)" by code_simp
  ultimately show ?thesis by simp
qed

lemma asc_demo_weights: "weights (rev demo) ! 100 = [Fin (1 / 2), Fin (- 1 / 2), Fin 0]"
proof -
  have "is_liquid (rev demo) ! 100 = [Fin 1, Fin 1, Fin 0]"
    by (simp add: is_liquid_nth rev_rev_demo_nth demo_slice_def del: rev_rev_ident)
  moreover have "row_weights [Fin 1, Fin 1, Fin 0] [Fin 0, Fin (- 1 / 200), Fin (- 1 / 500)]
      = [Fin (1 / 2), Fin (- 1 / 2), Fin 0]" by code_simp
  ultimately show ?thesis by (simp add: weights_nth asc_demo_avg_returns)
qed

lemma step_asc_demo:
  "step (rev demo) = Inr \<lparr>at_time = 0, fractions = [Fin (1 / 2), Fin (- 1 / 2), Fin 0]\<rparr>"
proof -
  have "rev demo \<noteq> []" using demo_nonempty by simp
  moreover have "hd (rev demo) = demo_slice 0"
    by (simp add: demo_def hd_map upt_rec [of 0 101])
  ultimately show ?thesis
    by (simp add: step_nonempty asc_demo_weights demo_slice_def)
qed

lemma weight_at_nth:
  assumes "distinct (map time (rev data))" and "i < length data"
  shows "weight_at data (time (rev data ! i)) = Some (weights data ! i)"
proof -
  have "map_of (zip (map time (rev data)) (weights data)) (map time (rev data) ! i)
      = Some (weights data ! i)"
    using assms by (intro map_of_zip_nth) simp_all
  with assms(2) show ?thesis by (simp add: weight_at_def)
qed

lemma length_calm [simp]: "length calm = 101"
  by (simp add: calm_def)

lemma calm_nth: "k < 101 \<Longrightarrow> calm ! k = (if k = 0 then calm_day else demo_slice (100 - k))"
  using rev_rev_demo_nth [of k] by (cases k) (simp_all add: calm_def)

lemma rect_calm: "rect 3 (rev calm)"
proof -
  have "rect 3 (drop 1 demo)"
    using rect_demo by (auto simp: rect_def list_all_iff dest: in_set_dropD)
  then show ?thesis by (simp add: rect_def list_all_iff calm_def calm_day_def)
qed

lemma calm_prices:
  "k < 101 \<Longrightarrow> prices (rev calm) ! k = [Fin 1, Fin 1, if k < 3 then Fin 5 else Fin 4]"
  by (auto simp add: prices_nth calm_nth calm_day_def demo_slice_def)

lemma calm_returns:
  assumes "0 < k" "k < 101"
  shows "returns (rev calm) ! k = [Fin 0, Fin 0, if k = 3 then Fin (- 1 / 5) else Fin 0]"
proof -
  from assms have "k - 1 < 101" by simp
  with assms show ?thesis
    by (auto simp add: returns_nth calm_prices fsub_def)
qed

lemma calm_window:
  "window 100 (returns (rev calm)) 100 a =
     map (\<lambda>k. [Fin 0, Fin 0, if k = 3 then Fin (- 1 / 5) else Fin 0] ! a) [1..<101]"
  unfolding window_last by (simp add: calm_returns del: upt_Suc cong: map_cong)

lemma calm_avg_returns:
  "avg_returns (rev calm) ! 100 = [Fin 0, Fin 0, Fin (- 1 / 500)]"
proof -
  have l: "length (returns (rev calm) ! 100) = 3"
    by (simp add: length_returns_row [OF rect_calm])
  have idx: "[0..<length (returns (rev calm) ! 100)] = [0, 1, 2]" unfolding l by code_simp
  have "avg_returns (rev calm) ! 100 =
    [window_mean 100 (map (\<lambda>k. Fin 0) [1..<101]),
     window_mean 100 (map (\<lambda>k. Fin 0) [1..<101]),
     window_mean 100 (map (\<lambda>k. if k = 3 then Fin (- 1 / 5) else Fin 0) [1..<101])]"
    by (simp add: avg_returns_nth idx calm_window del: upt_Suc)
  moreover have "window_mean 100 (map (\<lambda>k. Fin 0) [1..<101]) = Fin 0" by code_simp
  moreover have "window_mean 100 (map (\<lambda>k. if k = 3 then Fin (- 1 / 5) else Fin 0) [1..<101])
      = Fin (- 1 / 500)" by code_simp
  ultimately show ?thesis by simp
qed

lemma calm_weights: "weights (rev calm) ! 100 = [Fin 0, Fin 0, Fin 0]"
proof -
  have "is_liquid (rev calm) ! 100 = [Fin 1, Fin 1, Fin 0]"
    by (simp add: is_liquid_nth calm_nth demo_slice_def)
  moreover have "row_weights [Fin 1, Fin 1, Fin 0] [Fin 0, Fin 0, Fin (- 1 / 500)]
      = [Fin 0, Fin 0, Fin 0]" by code_simp
  ultimately show ?thesis by (simp add: weights_nth calm_avg_returns)
qed

lemma descending_calm: "descending calm"
proof -
  have "descending (drop 1 demo)"
    using descending_demo unfolding descending_def by (rule sorted_wrt_drop)
  moreover have "\<forall>u\<in>set (drop 1 demo). time u < 100"
    by (auto simp: demo_def demo_slice_def rev_map drop_map in_set_conv_nth rev_nth
        simp del: upt_Suc)
  ultimately show ?thesis by (simp add: calm_def descending_def calm_day_def)
qed

lemma calm_up_to_99: "up_to 99 (rev calm) = up_to 99 (rev demo)"
proof -
  have "hd demo = demo_slice 100"
    by (simp add: demo_def hd_rev last_map del: upt_Suc)
  moreover have "demo = hd demo # tl demo" using demo_nonempty by simp
  moreover have "drop 1 demo = tl demo" by (simp add: drop_Suc)
  ultimately have "rev demo = rev (drop 1 demo) @ [demo_slice 100]"
    by (metis rev.simps(2))
  moreover have "\<not> time (demo_slice 100) \<le> 99" by (simp add: demo_slice_def)
  ultimately have "up_to 99 (rev demo) = up_to 99 (rev (drop 1 demo))"
    by (simp add: up_to_def)
  then show ?thesis by (simp add: calm_def up_to_def calm_day_def)
qed

subsection \<open>The pandas pipeline\<close>

lemma pd_is_liquid_eq: "pd_is_liquid data = is_liquid data"
  by (simp add: pd_is_liquid_def is_liquid_def loc_rev_def rev_map)

lemma pd_prices_eq: "pd_prices data = prices data"
  by (simp add: pd_prices_def prices_def loc_rev_def rev_map)

lemma pd_rolling_mean_no_inf:
  assumes "no_inf A"
  shows "pd_rolling_mean w A = rolling_values w A"
proof -
  have "map (\<lambda>x. if x = PInf \<or> x = NInf then NaN else x) r = r" if "r \<in> set A" for r
    using assms that by (intro map_idI) (auto simp: no_inf_def list_all_iff)
  then have "map (map (\<lambda>x. if x = PInf \<or> x = NInf then NaN else x)) A = A"
    by (rule map_idI)
  then show ?thesis by (simp add: pd_rolling_mean_def)
qed

text \<open>After the returns the two pipelines are the same function of the liquidity
  and the returns, where no return is infinite.\<close>

lemma pd_weights_eq:
  assumes "pd_returns data = returns data" and "no_inf (returns data)"
  shows "pd_weights data = weights data"
proof -
  have a: "pd_avg_returns data = avg_returns data"
    by (simp add: pd_avg_returns_def avg_returns_def assms pd_rolling_mean_no_inf)
  have l: "pd_liq_avg_returns data = liq_avg_returns data"
    by (simp add: pd_liq_avg_returns_def liq_avg_returns_def a pd_is_liquid_eq)
  have m: "pd_liq_avg_returns_mean data = liq_avg_returns_mean data"
    by (simp add: pd_liq_avg_returns_mean_def liq_avg_returns_mean_def l pd_is_liquid_eq)
  have n: "pd_liq_avg_returns_neutralized data = liq_avg_returns_neutralized data"
    by (simp add: pd_liq_avg_returns_neutralized_def liq_avg_returns_neutralized_def
        pd_liq_avg_returns_neutralized1_def liq_avg_returns_neutralized1_def l m pd_is_liquid_eq)
  show ?thesis by (simp add: pd_weights_def weights_def abs_sum_def n)
qed

lemma pct_cell:
  assumes "x \<noteq> PInf" "x \<noteq> NInf" "y \<noteq> PInf" "y \<noteq> NInf"
  shows "fsub (fdiv x y) (Fin 1) = fdiv (fsub x y) y"
  using assms by (cases x; cases y) (simp_all add: fsub_def diff_divide_distrib)

lemma map2_cong_set:
  assumes "\<forall>x\<in>set xs. \<forall>y\<in>set ys. f x y = g x y"
  shows "map2 f xs ys = map2 g xs ys"
  using assms by (auto dest: set_zip_leftD set_zip_rightD)

lemma pd_returns_eq:
  assumes f: "ffill (prices data) = prices data" and n: "no_inf (prices data)"
  shows "pd_returns data = returns data"
proof (rule nth_equalityI)
  show "length (pd_returns data) = length (returns data)"
    by (simp add: pd_returns_def pct_change_def Let_def pd_prices_eq f)
next
  fix i assume "i < length (pd_returns data)"
  then have i: "i < length data"
    by (simp add: pd_returns_def pct_change_def Let_def pd_prices_eq f)
  have ni: "\<forall>x\<in>set (prices data ! k). x \<noteq> PInf \<and> x \<noteq> NInf" if "k < length data" for k
    using n that by (simp add: no_inf_def list_all_length all_set_conv_all_nth)
  let ?s = "if i = 0 then map (\<lambda>_. NaN) (prices data ! 0) else prices data ! (i - 1)"
  have "\<forall>y\<in>set ?s. y \<noteq> PInf \<and> y \<noteq> NInf"
    using ni [of "i - 1"] i by auto
  with ni [OF i]
  have "map2 (\<lambda>x y. fsub (fdiv x y) (Fin 1)) (prices data ! i) ?s
      = map2 (\<lambda>p s. fdiv (fsub p s) s) (prices data ! i) ?s"
    by (intro map2_cong_set) (simp add: pct_cell)
  then show "pd_returns data ! i = returns data ! i"
    using i by (simp add: pd_returns_def pct_change_def Let_def pd_prices_eq f nth_ew2 shift_time_nth
        returns_nth)
qed

lemma return_not_inf:
  assumes "p \<noteq> PInf" "p \<noteq> NInf" "s \<noteq> PInf" "s \<noteq> NInf" "s \<noteq> Fin 0"
  shows "fdiv (fsub p s) s \<noteq> PInf \<and> fdiv (fsub p s) s \<noteq> NInf"
  using assms by (cases p; cases s) (simp_all add: fsub_def)

lemma returns_no_inf:
  assumes n: "no_inf (prices data)" and z: "no_zero (prices data)"
  shows "no_inf (returns data)"
proof -
  have ok: "\<forall>x\<in>set (prices data ! k). x \<noteq> PInf \<and> x \<noteq> NInf \<and> x \<noteq> Fin 0"
    if "k < length data" for k
    using n z that by (simp add: no_inf_def no_zero_def list_all_length all_set_conv_all_nth)
  have "list_all (\<lambda>x. x \<noteq> PInf \<and> x \<noteq> NInf) (returns data ! i)" if i: "i < length data" for i
  proof -
    let ?s = "if i = 0 then map (\<lambda>_. NaN) (prices data ! 0) else prices data ! (i - 1)"
    have s: "\<forall>y\<in>set ?s. y \<noteq> PInf \<and> y \<noteq> NInf \<and> y \<noteq> Fin 0"
      using ok [of "i - 1"] i by auto
    have "fdiv (fsub x y) y \<noteq> PInf \<and> fdiv (fsub x y) y \<noteq> NInf"
      if "(x, y) \<in> set (zip (prices data ! i) ?s)" for x y
    proof -
      from that have "x \<in> set (prices data ! i)" "y \<in> set ?s"
        by (auto dest: set_zip_leftD set_zip_rightD)
      with ok [OF i] s show ?thesis by (intro return_not_inf) auto
    qed
    then show ?thesis using i by (auto simp: returns_nth list_all_iff)
  qed
  then show ?thesis by (simp add: no_inf_def list_all_length)
qed

lemma pandas_agrees_without_gaps:
  assumes "ffill (prices data) = prices data" and "no_inf (prices data)"
    and "no_zero (prices data)"
  shows "pd_weights data = weights data"
  using assms by (intro pd_weights_eq pd_returns_eq returns_no_inf)

subsection \<open>The panel with a gap, evaluated\<close>

lemma window_last_102:
  "window 100 A 101 a = map (\<lambda>k. A ! k ! a) [2..<102]"
proof -
  have "window 100 A 101 a = map (\<lambda>k. A ! k ! a) [101 + 1 - 100..<101 + 1]"
    by (rule window_full) simp_all
  also have "[101 + 1 - 100..<101 + 1] = [2..<102::nat]" by simp
  finally show ?thesis .
qed

lemma length_gap [simp]: "length gap = 102"
  by (simp add: gap_def)

lemma gap_nonempty: "gap \<noteq> []"
  by (metis length_gap list.size(3) zero_neq_numeral)

lemma rev_gap_nth: "k < 102 \<Longrightarrow> rev gap ! k = gap_slice k"
  by (simp add: gap_def del: upt_Suc)

lemma rect_gap: "rect 2 gap"
  by (simp add: rect_def list_all_iff gap_def gap_slice_def del: upt_Suc)

lemma gap_prices:
  "k < 102 \<Longrightarrow>
   prices gap ! k = [if k = 1 then NaN else Fin 1, if k = 101 then Fin 2 else Fin 1]"
  by (simp add: prices_nth rev_gap_nth gap_slice_def)

lemma gap_is_liquid: "is_liquid gap ! 101 = [Fin 1, Fin 1]"
  by (simp add: is_liquid_nth rev_gap_nth gap_slice_def)

text \<open>\<open>step\<close> on the panel with the gap.\<close>

lemma gap_returns:
  assumes "1 < k" "k < 102"
  shows "returns gap ! k = [if k = 2 then NaN else Fin 0, if k = 101 then Fin 1 else Fin 0]"
proof -
  from assms have "k - 1 < 102" "k - 1 \<noteq> 101" "k \<noteq> 0" "k \<noteq> 1" by simp_all
  with assms show ?thesis
    by (auto simp add: returns_nth gap_prices fsub_def)
qed

lemma gap_window:
  "window 100 (returns gap) 101 a =
     map (\<lambda>k. [if k = 2 then NaN else Fin 0, if k = 101 then Fin 1 else Fin 0] ! a) [2..<102]"
  unfolding window_last_102 by (simp add: gap_returns del: upt_Suc cong: map_cong)

lemma gap_avg_returns: "avg_returns gap ! 101 = [NaN, Fin (1 / 100)]"
proof -
  have l: "length (returns gap ! 101) = 2"
    by (simp add: length_returns_row [OF rect_gap])
  have idx: "[0..<length (returns gap ! 101)] = [0, 1]" unfolding l by code_simp
  have "avg_returns gap ! 101 =
    [window_mean 100 (map (\<lambda>k. if k = 2 then NaN else Fin 0) [2..<102]),
     window_mean 100 (map (\<lambda>k. if k = 101 then Fin 1 else Fin 0) [2..<102])]"
    by (simp add: avg_returns_nth idx gap_window del: upt_Suc)
  moreover have "window_mean 100 (map (\<lambda>k. if k = 2 then NaN else Fin 0) [2..<102]) = NaN"
    by code_simp
  moreover have "window_mean 100 (map (\<lambda>k. if k = 101 then Fin 1 else Fin 0) [2..<102])
      = Fin (1 / 100)" by code_simp
  ultimately show ?thesis by simp
qed

lemma step_gap: "step gap = Inr \<lparr>at_time = 101, fractions = [Fin 0, Fin 0]\<rparr>"
proof -
  have "row_weights [Fin 1, Fin 1] [NaN, Fin (1 / 100)] = [Fin 0, Fin 0]" by code_simp
  then have "weights gap ! 101 = [Fin 0, Fin 0]"
    by (simp add: weights_nth gap_is_liquid gap_avg_returns)
  moreover have "hd gap = gap_slice 101"
    by (simp add: gap_def hd_rev last_map del: upt_Suc)
  ultimately show ?thesis
    by (simp add: step_nonempty gap_nonempty gap_slice_def)
qed

text \<open>The pandas pipeline on the same panel.\<close>

lemma gap_filled:
  "ffill (pd_prices gap) = map (\<lambda>k. [Fin 1, if k = 101 then Fin 2 else Fin 1]) [0..<102]"
proof -
  have "pd_prices gap
      = map (\<lambda>k. [if k = 1 then NaN else Fin 1, if k = 101 then Fin 2 else Fin 1]) [0..<102]"
    by (simp add: pd_prices_def gap_def rev_map [symmetric] gap_slice_def comp_def del: upt_Suc)
  moreover have "ffill (map (\<lambda>k. [if k = 1 then NaN else Fin 1, if k = 101 then Fin 2 else Fin 1])
        [0..<102])
      = map (\<lambda>k. [Fin 1, if k = 101 then Fin 2 else Fin 1]) [0..<102]"
    by code_simp
  ultimately show ?thesis by simp
qed

lemma pd_gap_returns:
  assumes "0 < k" "k < 102"
  shows "pd_returns gap ! k = [Fin 0, if k = 101 then Fin 1 else Fin 0]"
proof -
  from assms have "k - 1 < 102" "k - 1 \<noteq> 101" by simp_all
  with assms show ?thesis
    by (auto simp add: pd_returns_def pct_change_def Let_def gap_filled nth_ew2 shift_time_nth
        fsub_def simp del: upt_Suc)
qed

lemma pd_gap_window:
  "window 100 (pd_returns gap) 101 a =
     map (\<lambda>k. [Fin 0, if k = 101 then Fin 1 else Fin 0] ! a) [2..<102]"
  unfolding window_last_102 by (simp add: pd_gap_returns del: upt_Suc cong: map_cong)

lemma length_pd_returns_gap [simp]: "length (pd_returns gap) = 102"
  by (simp add: pd_returns_def pct_change_def Let_def gap_filled del: upt_Suc)

lemma pd_gap_returns_0: "pd_returns gap ! 0 = [NaN, NaN]"
  by (simp add: pd_returns_def pct_change_def Let_def gap_filled nth_ew2 shift_time_nth
      upt_rec [of 0 102] del: upt_Suc)

lemma pd_gap_no_inf: "no_inf (pd_returns gap)"
proof -
  have "list_all (\<lambda>x. x \<noteq> PInf \<and> x \<noteq> NInf) (pd_returns gap ! k)" if "k < 102" for k
    using that pd_gap_returns [of k] pd_gap_returns_0 by (cases "k = 0") auto
  then show ?thesis by (simp add: no_inf_def list_all_length)
qed

lemma pd_gap_avg_returns: "pd_avg_returns gap ! 101 = [Fin 0, Fin (1 / 100)]"
proof -
  have l: "length (pd_returns gap ! 101) = 2" by (simp add: pd_gap_returns)
  have idx: "[0..<length (pd_returns gap ! 101)] = [0, 1]" unfolding l by code_simp
  have "pd_avg_returns gap ! 101 =
    [window_mean 100 (map (\<lambda>k. Fin 0) [2..<102]),
     window_mean 100 (map (\<lambda>k. if k = 101 then Fin 1 else Fin 0) [2..<102])]"
    by (simp add: pd_avg_returns_def pd_rolling_mean_no_inf [OF pd_gap_no_inf] rolling_values_def
        idx pd_gap_window del: upt_Suc)
  moreover have "window_mean 100 (map (\<lambda>k. Fin 0) [2..<102]) = Fin 0" by code_simp
  moreover have "window_mean 100 (map (\<lambda>k. if k = 101 then Fin 1 else Fin 0) [2..<102])
      = Fin (1 / 100)" by code_simp
  ultimately show ?thesis by simp
qed

lemma pd_weights_nth:
  assumes "length (pd_returns data) = length data" and "i < length data"
  shows "pd_weights data ! i = row_weights (is_liquid data ! i) (pd_avg_returns data ! i)"
proof -
  have la: "length (pd_avg_returns data) = length data"
    by (simp add: pd_avg_returns_def pd_rolling_mean_def assms(1))
  have l: "pd_liq_avg_returns data ! i = row_liq_avg (is_liquid data ! i) (pd_avg_returns data ! i)"
    using assms(2) la
    by (simp add: pd_liq_avg_returns_def pd_is_liquid_eq nth_ew2 mask_nth row_liq_avg_def)
  have ll: "length (pd_liq_avg_returns data) = length data"
    by (simp add: pd_liq_avg_returns_def pd_is_liquid_eq la)
  have m: "pd_liq_avg_returns_mean data ! i = row_mean (is_liquid data ! i) (pd_avg_returns data ! i)"
    using assms(2) ll
    by (simp add: pd_liq_avg_returns_mean_def mean_asset_def where_arr_def nth_ew2 gt0_arr_def
        pd_is_liquid_eq l row_mean_def)
  have lm: "length (pd_liq_avg_returns_mean data) = length data"
    by (simp add: pd_liq_avg_returns_mean_def mean_asset_def where_arr_def pd_is_liquid_eq ll)
  have n: "pd_liq_avg_returns_neutralized data ! i
      = row_neutralized (is_liquid data ! i) (pd_avg_returns data ! i)"
    using assms(2) ll lm
    by (simp add: pd_liq_avg_returns_neutralized_def pd_liq_avg_returns_neutralized1_def nth_ew2
        nth_bc_time mask_nth pd_is_liquid_eq l m row_neutralized_def)
  have ln: "length (pd_liq_avg_returns_neutralized data) = length data"
    by (simp add: pd_liq_avg_returns_neutralized_def pd_liq_avg_returns_neutralized1_def
        pd_is_liquid_eq ll lm)
  show ?thesis
    using assms(2) ln
    by (simp add: pd_weights_def fillna_def nth_bc_time sum_asset_def abs_arr_def n
        row_abs_sum_def row_weights_def)
qed

lemma pd_weights_gap: "last (pd_weights gap) = [Fin (- 1 / 2), Fin (1 / 2)]"
proof -
  have "row_weights [Fin 1, Fin 1] [Fin 0, Fin (1 / 100)] = [Fin (- 1 / 2), Fin (1 / 2)]"
    by code_simp
  then have "pd_weights gap ! 101 = [Fin (- 1 / 2), Fin (1 / 2)]"
    by (simp add: pd_weights_nth gap_is_liquid pd_gap_avg_returns)
  moreover have "length (pd_weights gap) = 102"
    by (simp add: pd_weights_def fillna_def pd_liq_avg_returns_neutralized_def
        pd_liq_avg_returns_neutralized1_def pd_liq_avg_returns_def pd_liq_avg_returns_mean_def
        mean_asset_def where_arr_def sum_asset_def abs_arr_def pd_avg_returns_def
        pd_rolling_mean_def pd_is_liquid_eq)
  ultimately show ?thesis
    using last_row [of "pd_weights gap" gap] gap_nonempty by simp
qed

subsection \<open>The float64 arrays row by row\<close>

lemma length_rolling_values64 [simp]: "length (rolling_values64 w A) = length A"
  by (simp add: rolling_values64_def)

lemma length_returns64 [simp]: "length (returns64 data) = length data"
  by (simp add: returns64_def)

lemma length_avg_returns64 [simp]: "length (avg_returns64 data) = length data"
  by (simp add: avg_returns64_def)

lemma length_liq_avg_returns64 [simp]: "length (liq_avg_returns64 data) = length data"
  by (simp add: liq_avg_returns64_def)

lemma length_liq_avg_returns_mean64 [simp]: "length (liq_avg_returns_mean64 data) = length data"
  by (simp add: liq_avg_returns_mean64_def mean_asset64_def where_arr_def)

lemma length_neutralized1_64 [simp]: "length (liq_avg_returns_neutralized1_64 data) = length data"
  by (simp add: liq_avg_returns_neutralized1_64_def)

lemma length_neutralized64 [simp]: "length (liq_avg_returns_neutralized64 data) = length data"
  by (simp add: liq_avg_returns_neutralized64_def)

lemma length_abs_sum64 [simp]: "length (abs_sum64 data) = length data"
  by (simp add: abs_sum64_def sum_asset64_def abs_arr_def)

lemma length_weights64 [simp]: "length (weights64 data) = length data"
  by (simp add: weights64_def fillna_def)

lemma liq_avg_returns64_nth:
  "i < length data \<Longrightarrow>
   liq_avg_returns64 data ! i = row_liq_avg64 (is_liquid data ! i) (avg_returns64 data ! i)"
  by (simp add: liq_avg_returns64_def nth_ew2 mask_nth row_liq_avg64_def)

lemma liq_avg_returns_mean64_nth:
  "i < length data \<Longrightarrow>
   liq_avg_returns_mean64 data ! i = row_mean64 (is_liquid data ! i) (avg_returns64 data ! i)"
  by (simp add: liq_avg_returns_mean64_def mean_asset64_def where_arr_def nth_ew2 gt0_arr_def
      liq_avg_returns64_nth row_mean64_def)

lemma neutralized64_nth:
  "i < length data \<Longrightarrow>
   liq_avg_returns_neutralized64 data ! i
     = row_neutralized64 (is_liquid data ! i) (avg_returns64 data ! i)"
  by (simp add: liq_avg_returns_neutralized64_def liq_avg_returns_neutralized1_64_def nth_ew2
      nth_bc_time mask_nth liq_avg_returns64_nth liq_avg_returns_mean64_nth row_neutralized64_def)

lemma abs_sum64_nth:
  "i < length data \<Longrightarrow>
   abs_sum64 data ! i = row_abs_sum64 (is_liquid data ! i) (avg_returns64 data ! i)"
  by (simp add: abs_sum64_def sum_asset64_def abs_arr_def neutralized64_nth row_abs_sum64_def)

lemma weights64_nth:
  "i < length data \<Longrightarrow>
   weights64 data ! i = row_weights64 (is_liquid data ! i) (avg_returns64 data ! i)"
  by (simp add: weights64_def fillna_def nth_bc_time neutralized64_nth abs_sum64_nth
      row_weights64_def)

lemma step64_nonempty:
  assumes ne: "data \<noteq> []"
  shows "step64 data
    = Inr \<lparr>at_time = time (hd data), fractions = weights64 data ! (length data - 1)\<rparr>"
proof -
  from ne have w: "weights64 data \<noteq> []" by (metis length_weights64 length_0_conv)
  from ne have r: "returns64 data \<noteq> []" by (metis length_returns64 length_0_conv)
  have "rolling_mean64 False 100 (returns64 data) = Inr (rolling_values64 100 (returns64 data))"
    using r by (simp add: rolling_mean64_def)
  moreover have "last (weights64 data) = weights64 data ! (length data - 1)"
    using w by (simp add: last_conv_nth)
  moreover have "last (map time (rev data)) = time (hd data)"
    using ne by (simp add: last_map last_rev)
  ultimately show ?thesis using w by (simp add: step64_def)
qed

lemma returns64_nth:
  "k < length data \<Longrightarrow>
   returns64 data ! k =
     map2 (\<lambda>p s. fdiv64 (fsub64 p s) s) (prices data ! k)
       (if k = 0 then map (\<lambda>_. NaN) (prices data ! 0) else prices data ! (k - 1))"
  by (simp add: returns64_def nth_ew2 prices_shifted_def shift_time_nth)

lemma avg_returns64_nth:
  "i < length data \<Longrightarrow>
   avg_returns64 data ! i =
     map (\<lambda>a. window_mean64 100 (window 100 (returns64 data) i a))
       [0..<length (returns64 data ! i)]"
  by (simp add: avg_returns64_def rolling_values64_def)

subsection \<open>The panel with one jump, evaluated in both arithmetics\<close>

lemma length_spike [simp]: "length spike = 101"
  by (simp add: spike_def)

lemma spike_nonempty: "spike \<noteq> []"
  by (metis length_spike list.size(3) zero_neq_numeral)

lemma rev_spike_nth: "k < 101 \<Longrightarrow> rev spike ! k = spike_slice k"
  by (simp add: spike_def del: upt_Suc)

lemma rect_spike: "rect 3 spike"
  by (simp add: rect_def list_all_iff spike_def spike_slice_def del: upt_Suc)

lemma hd_spike: "time (hd spike) = 100"
  by (simp add: spike_def hd_rev last_map spike_slice_def del: upt_Suc)

lemma spike_prices:
  "k < 101 \<Longrightarrow> prices spike ! k = [Fin 1, if k = 100 then Fin 4 else Fin 1, Fin 1]"
  by (simp add: prices_nth rev_spike_nth spike_slice_def)

lemma spike_is_liquid: "is_liquid spike ! 100 = [Fin 1, Fin 1, Fin 1]"
  by (simp add: is_liquid_nth rev_spike_nth spike_slice_def)

lemma spike_returns:
  assumes "0 < k" "k < 101"
  shows "returns spike ! k = [Fin 0, if k = 100 then Fin 3 else Fin 0, Fin 0]"
proof -
  from assms have "k - 1 < 101" "k - 1 \<noteq> 100" by simp_all
  with assms show ?thesis
    by (auto simp add: returns_nth spike_prices fsub_def)
qed

lemma spike_window:
  "window 100 (returns spike) 100 a =
     map (\<lambda>k. [Fin 0, if k = 100 then Fin 3 else Fin 0, Fin 0] ! a) [1..<101]"
  unfolding window_last by (simp add: spike_returns del: upt_Suc cong: map_cong)

lemma spike_avg_returns: "avg_returns spike ! 100 = [Fin 0, Fin (3 / 100), Fin 0]"
proof -
  have l: "length (returns spike ! 100) = 3"
    by (simp add: length_returns_row [OF rect_spike])
  have idx: "[0..<length (returns spike ! 100)] = [0, 1, 2]" unfolding l by code_simp
  have "avg_returns spike ! 100 =
    [window_mean 100 (map (\<lambda>k. Fin 0) [1..<101]),
     window_mean 100 (map (\<lambda>k. if k = 100 then Fin 3 else Fin 0) [1..<101]),
     window_mean 100 (map (\<lambda>k. Fin 0) [1..<101])]"
    by (simp add: avg_returns_nth idx spike_window del: upt_Suc)
  moreover have "window_mean 100 (map (\<lambda>k. Fin 0) [1..<101]) = Fin 0" by code_simp
  moreover have "window_mean 100 (map (\<lambda>k. if k = 100 then Fin 3 else Fin 0) [1..<101])
      = Fin (3 / 100)" by code_simp
  ultimately show ?thesis by simp
qed

lemma step_spike:
  "step spike = Inr \<lparr>at_time = 100, fractions = [Fin (- 1 / 4), Fin (1 / 2), Fin (- 1 / 4)]\<rparr>"
proof -
  have "row_weights [Fin 1, Fin 1, Fin 1] [Fin 0, Fin (3 / 100), Fin 0]
      = [Fin (- 1 / 4), Fin (1 / 2), Fin (- 1 / 4)]" by code_simp
  then have "weights spike ! 100 = [Fin (- 1 / 4), Fin (1 / 2), Fin (- 1 / 4)]"
    by (simp add: weights_nth spike_is_liquid spike_avg_returns)
  then show ?thesis
    by (simp add: step_nonempty spike_nonempty hd_spike)
qed

lemma observed_spike: "observed spike 3 100"
  by (auto simp: observed_def list_all_iff spike_returns numeral_3_eq_3 less_Suc_eq
      simp del: upt_Suc)

text \<open>The same panel in float64 arithmetic. The returns are whole numbers and are
  not rounded; the average return 3/100 is.\<close>

lemma return64_flat: "fdiv64 (fsub64 (Fin 1) (Fin 1)) (Fin 1) = Fin 0"
  by code_simp

lemma return64_jump: "fdiv64 (fsub64 (Fin 4) (Fin 1)) (Fin 1) = Fin 3"
  by code_simp

lemma spike_returns64:
  assumes "0 < k" "k < 101"
  shows "returns64 spike ! k = [Fin 0, if k = 100 then Fin 3 else Fin 0, Fin 0]"
proof -
  from assms have "k - 1 < 101" "k - 1 \<noteq> 100" by simp_all
  with assms show ?thesis
    by (auto simp add: returns64_nth spike_prices return64_flat return64_jump)
qed

lemma spike_window64:
  "window 100 (returns64 spike) 100 a =
     map (\<lambda>k. [Fin 0, if k = 100 then Fin 3 else Fin 0, Fin 0] ! a) [1..<101]"
  unfolding window_last by (simp add: spike_returns64 del: upt_Suc cong: map_cong)

lemma spike_avg_returns64:
  "avg_returns64 spike ! 100 = [Fin 0, Fin (1080863910568919 / 36028797018963968), Fin 0]"
proof -
  have l: "length (returns64 spike ! 100) = 3" by (simp add: spike_returns64)
  have idx: "[0..<length (returns64 spike ! 100)] = [0, 1, 2]" unfolding l by code_simp
  have "avg_returns64 spike ! 100 =
    [window_mean64 100 (map (\<lambda>k. Fin 0) [1..<101]),
     window_mean64 100 (map (\<lambda>k. if k = 100 then Fin 3 else Fin 0) [1..<101]),
     window_mean64 100 (map (\<lambda>k. Fin 0) [1..<101])]"
    by (simp add: avg_returns64_nth idx spike_window64 del: upt_Suc)
  moreover have "window_mean64 100 (map (\<lambda>k. Fin 0) [1..<101]) = Fin 0" by code_simp
  moreover have "window_mean64 100 (map (\<lambda>k. if k = 100 then Fin 3 else Fin 0) [1..<101])
      = Fin (1080863910568919 / 36028797018963968)" by code_simp
  ultimately show ?thesis by simp
qed

text \<open>The row of the last day, one assignment after the other: the mean over the
  assets (3/100 divided by 3, rounded), the neutralized signals, their absolute sum and
  the weights.\<close>

lemma spike_row_mean64:
  "row_mean64 [Fin 1, Fin 1, Fin 1] [Fin 0, Fin (1080863910568919 / 36028797018963968), Fin 0]
     = Fin (5764607523034235 / 576460752303423488)"
  by code_simp

lemma spike_row_neutralized64:
  "row_neutralized64 [Fin 1, Fin 1, Fin 1]
       [Fin 0, Fin (1080863910568919 / 36028797018963968), Fin 0]
     = [Fin (- 5764607523034235 / 576460752303423488),
        Fin (2882303761517117 / 144115188075855872),
        Fin (- 5764607523034235 / 576460752303423488)]"
  unfolding row_neutralized64_def spike_row_mean64 by code_simp

lemma spike_row_abs_sum64:
  "row_abs_sum64 [Fin 1, Fin 1, Fin 1]
       [Fin 0, Fin (1080863910568919 / 36028797018963968), Fin 0]
     = Fin (5764607523034235 / 144115188075855872)"
  unfolding row_abs_sum64_def spike_row_neutralized64 by code_simp

lemma spike_row_weights64:
  "row_weights64 [Fin 1, Fin 1, Fin 1] [Fin 0, Fin (1080863910568919 / 36028797018963968), Fin 0]
     = [Fin (- 1 / 4), Fin (4503599627370495 / 9007199254740992), Fin (- 1 / 4)]"
  unfolding row_weights64_def spike_row_abs_sum64 spike_row_neutralized64 by code_simp

lemma step64_spike:
  "step64 spike = Inr \<lparr>at_time = 100,
     fractions = [Fin (- 1 / 4), Fin (4503599627370495 / 9007199254740992), Fin (- 1 / 4)]\<rparr>"
proof -
  have "weights64 spike ! 100
      = [Fin (- 1 / 4), Fin (4503599627370495 / 9007199254740992), Fin (- 1 / 4)]"
    by (simp add: weights64_nth spike_is_liquid spike_avg_returns64 spike_row_weights64)
  then show ?thesis
    by (simp add: step64_nonempty spike_nonempty hd_spike)
qed

text \<open>The jump in the third asset: the absolute neutralized signals are added in
  another order, and the rounded weights are others.\<close>

lemma length_spike_last [simp]: "length spike_last = 101"
  by (simp add: spike_last_def)

lemma spike_last_nonempty: "spike_last \<noteq> []"
  by (metis length_spike_last list.size(3) zero_neq_numeral)

lemma rev_spike_last_nth: "k < 101 \<Longrightarrow> rev spike_last ! k = spike_last_slice k"
  by (simp add: spike_last_def del: upt_Suc)

lemma rect_spike_last: "rect 3 spike_last"
  by (simp add: rect_def list_all_iff spike_last_def spike_last_slice_def del: upt_Suc)

lemma hd_spike_last: "time (hd spike_last) = 100"
  by (simp add: spike_last_def hd_rev last_map spike_last_slice_def del: upt_Suc)

lemma spike_last_prices:
  "k < 101 \<Longrightarrow> prices spike_last ! k = [Fin 1, Fin 1, if k = 100 then Fin 4 else Fin 1]"
  by (simp add: prices_nth rev_spike_last_nth spike_last_slice_def)

lemma spike_last_is_liquid: "is_liquid spike_last ! 100 = [Fin 1, Fin 1, Fin 1]"
  by (simp add: is_liquid_nth rev_spike_last_nth spike_last_slice_def)

lemma spike_last_returns64:
  assumes "0 < k" "k < 101"
  shows "returns64 spike_last ! k = [Fin 0, Fin 0, if k = 100 then Fin 3 else Fin 0]"
proof -
  from assms have "k - 1 < 101" "k - 1 \<noteq> 100" by simp_all
  with assms show ?thesis
    by (auto simp add: returns64_nth spike_last_prices return64_flat return64_jump)
qed

lemma spike_last_window64:
  "window 100 (returns64 spike_last) 100 a =
     map (\<lambda>k. [Fin 0, Fin 0, if k = 100 then Fin 3 else Fin 0] ! a) [1..<101]"
  unfolding window_last by (simp add: spike_last_returns64 del: upt_Suc cong: map_cong)

lemma spike_last_avg_returns64:
  "avg_returns64 spike_last ! 100
     = [Fin 0, Fin 0, Fin (1080863910568919 / 36028797018963968)]"
proof -
  have l: "length (returns64 spike_last ! 100) = 3" by (simp add: spike_last_returns64)
  have idx: "[0..<length (returns64 spike_last ! 100)] = [0, 1, 2]" unfolding l by code_simp
  have "avg_returns64 spike_last ! 100 =
    [window_mean64 100 (map (\<lambda>k. Fin 0) [1..<101]),
     window_mean64 100 (map (\<lambda>k. Fin 0) [1..<101]),
     window_mean64 100 (map (\<lambda>k. if k = 100 then Fin 3 else Fin 0) [1..<101])]"
    by (simp add: avg_returns64_nth idx spike_last_window64 del: upt_Suc)
  moreover have "window_mean64 100 (map (\<lambda>k. Fin 0) [1..<101]) = Fin 0" by code_simp
  moreover have "window_mean64 100 (map (\<lambda>k. if k = 100 then Fin 3 else Fin 0) [1..<101])
      = Fin (1080863910568919 / 36028797018963968)" by code_simp
  ultimately show ?thesis by simp
qed

lemma spike_last_row_mean64:
  "row_mean64 [Fin 1, Fin 1, Fin 1] [Fin 0, Fin 0, Fin (1080863910568919 / 36028797018963968)]
     = Fin (5764607523034235 / 576460752303423488)"
  by code_simp

lemma spike_last_row_neutralized64:
  "row_neutralized64 [Fin 1, Fin 1, Fin 1]
       [Fin 0, Fin 0, Fin (1080863910568919 / 36028797018963968)]
     = [Fin (- 5764607523034235 / 576460752303423488),
        Fin (- 5764607523034235 / 576460752303423488),
        Fin (2882303761517117 / 144115188075855872)]"
  unfolding row_neutralized64_def spike_last_row_mean64 by code_simp

lemma spike_last_row_abs_sum64:
  "row_abs_sum64 [Fin 1, Fin 1, Fin 1]
       [Fin 0, Fin 0, Fin (1080863910568919 / 36028797018963968)]
     = Fin (2882303761517117 / 72057594037927936)"
  unfolding row_abs_sum64_def spike_last_row_neutralized64 by code_simp

lemma spike_last_row_weights64:
  "row_weights64 [Fin 1, Fin 1, Fin 1] [Fin 0, Fin 0, Fin (1080863910568919 / 36028797018963968)]
     = [Fin (- 4503599627370497 / 18014398509481984),
        Fin (- 4503599627370497 / 18014398509481984), Fin (1 / 2)]"
  unfolding row_weights64_def spike_last_row_abs_sum64 spike_last_row_neutralized64 by code_simp

lemma step64_spike_last:
  "step64 spike_last = Inr \<lparr>at_time = 100,
     fractions = [Fin (- 4503599627370497 / 18014398509481984),
                  Fin (- 4503599627370497 / 18014398509481984), Fin (1 / 2)]\<rparr>"
proof -
  have "weights64 spike_last ! 100
      = [Fin (- 4503599627370497 / 18014398509481984),
         Fin (- 4503599627370497 / 18014398509481984), Fin (1 / 2)]"
    by (simp add: weights64_nth spike_last_is_liquid spike_last_avg_returns64
        spike_last_row_weights64)
  then show ?thesis
    by (simp add: step64_nonempty spike_last_nonempty hd_spike_last)
qed

lemma spike_last_abs_sum_exact:
  "fsum (map fabs [Fin (- 4503599627370497 / 18014398509481984),
                   Fin (- 4503599627370497 / 18014398509481984), Fin (1 / 2)])
     = Fin (9007199254740993 / 9007199254740992)"
  by code_simp

lemma spike_abs_sum64:
  "fsum64 (map fabs [Fin (- 1 / 4), Fin (4503599627370495 / 9007199254740992), Fin (- 1 / 4)])
     = Fin (9007199254740991 / 9007199254740992)"
  by code_simp

lemma spike_abs_sum_exact:
  "fsum (map fabs [Fin (- 1 / 4), Fin (4503599627370495 / 9007199254740992), Fin (- 1 / 4)])
     = Fin (9007199254740991 / 9007199254740992)"
  by code_simp

subsection \<open>Returns and averages over the reversed axis\<close>

lemma returns_between_slices:
  assumes "rect n data" and "i < length data" and "a < n" and "0 < i"
  shows "returns data ! i ! a
    = fdiv (fsub (cells (rev data ! i) Close ! a) (cells (rev data ! (i - 1)) Close ! a))
        (cells (rev data ! (i - 1)) Close ! a)"
  using assms by (simp add: returns_cell prices_nth)

lemma avg_returns_trailing:
  assumes "rect n data" and "i < length data" and "a < n" and "99 \<le> i"
  shows "avg_returns data ! i ! a
    = window_mean 100 (map (\<lambda>k. returns data ! k ! a) [i - 99..<Suc i])"
proof -
  from assms(4) have "window 100 (returns data) i a
      = map (\<lambda>k. returns data ! k ! a) [i + 1 - 100..<i + 1]"
    by (intro window_full) simp_all
  moreover from assms(4) have "[i + 1 - 100..<i + 1] = [i - 99..<Suc i]" by simp
  ultimately show ?thesis using assms(1-3) by (simp add: avg_returns_cell)
qed

lemma ascending_Min:
  assumes "ascending data" and "data \<noteq> []"
  shows "Min (time ` set data) = time (hd data)"
proof -
  from assms(2) obtain x xs where x: "data = x # xs" by (cases data) auto
  with assms(1) have "\<forall>u\<in>set xs. time x < time u" by (simp add: ascending_def)
  then have "Min (insert (time x) (time ` set xs)) = time x"
    by (intro Min_insert2) auto
  with x show ?thesis by simp
qed

lemma step_flat: "step flat = Inr \<lparr>at_time = 100, fractions = [Fin 0, Fin 0]\<rparr>"
proof -
  have "flat \<noteq> []" by (metis length_flat list.size(3) zero_neq_numeral)
  moreover have "hd flat = flat_slice 100"
    by (simp add: flat_def hd_rev last_map del: upt_Suc)
  ultimately show ?thesis
    by (simp add: step_nonempty flat_weights flat_slice_def)
qed

lemma row_weights_abs_sum_char:
  "fsum (map fabs (row_weights L V))
     = (if is_fin (row_abs_sum L V) \<and> gt0 (row_abs_sum L V) then Fin 1 else Fin 0)"
proof -
  consider "row_abs_sum L V = PInf" | "row_abs_sum L V = Fin 0"
    | q where "0 < q" "row_abs_sum L V = Fin q"
    using nansum_abs_cases [of "row_neutralized L V"]
    by (fastforce simp: row_abs_sum_def)
  then show ?thesis
  proof cases
    case 1
    then have "fsum (map fabs (row_weights L V)) = Fin 0"
      by (intro fsum_zeros) (auto dest: row_weights_inf_denominator)
    with 1 show ?thesis by simp
  next
    case 2
    then have "fsum (map fabs (row_weights L V)) = Fin 0"
      by (intro fsum_zeros) (auto dest: row_weights_zero_denominator)
    with 2 show ?thesis by simp
  next
    case 3
    then show ?thesis by (simp add: row_weights_abs_sum_pos)
  qed
qed

section \<open>Properties of the weight calculator\<close>

text \<open>
  C1 (no lookahead). The panels are in the order the loader delivers and \<open>step\<close>
  reverses, most recent first. Two such panels with the same time steps up to and
  including the date \<open>t\<close> get the same weight vector for \<open>t\<close>, whatever their later
  time steps are: the vector for \<open>t\<close> is the one \<open>step\<close> returns on the panel cut
  after \<open>t\<close>.
\<close>

theorem no_lookahead:
  assumes "descending P" and "descending Q" and "up_to t P = up_to t Q"
  shows "weight_at P t = weight_at Q t \<and> weight_at P t = walk_forward P t"
proof -
  have "walk_forward P t = walk_forward Q t"
    by (simp add: walk_forward_def assms(3))
  with weight_at_walk_forward [OF assms(1)] weight_at_walk_forward [OF assms(2)]
  show ?thesis by simp
qed

theorem no_lookahead_witness:
  "descending (later_a # demo) \<and> descending (later_b # demo)
   \<and> up_to 100 (later_a # demo) = up_to 100 (later_b # demo)
   \<and> cells later_a Close \<noteq> cells later_b Close
   \<and> weight_at (later_a # demo) 100 = Some [Fin (- 1 / 2), Fin (1 / 2), Fin 0]
   \<and> weight_at (later_b # demo) 100 = Some [Fin (- 1 / 2), Fin (1 / 2), Fin 0]"
proof -
  have a: "up_to 100 (later_a # demo) = demo" "descending (later_a # demo)"
    by (rule up_to_later, simp add: later_a_def)+
  have b: "up_to 100 (later_b # demo) = demo" "descending (later_b # demo)"
    by (rule up_to_later, simp add: later_b_def)+
  have w: "walk_forward (later_a # demo) 100 = Some [Fin (- 1 / 2), Fin (1 / 2), Fin 0]"
    by (simp add: walk_forward_def a step_demo)
  have "up_to 100 (later_a # demo) = up_to 100 (later_b # demo)"
    by (simp only: a(1) b(1))
  from no_lookahead [OF a(2) b(2) this]
  have e: "weight_at (later_a # demo) 100 = weight_at (later_b # demo) 100"
    and f: "weight_at (later_a # demo) 100 = walk_forward (later_a # demo) 100" by blast+
  from f w have "weight_at (later_a # demo) 100 = Some [Fin (- 1 / 2), Fin (1 / 2), Fin 0]"
    by (simp only:)
  moreover from this e
  have "weight_at (later_b # demo) 100 = Some [Fin (- 1 / 2), Fin (1 / 2), Fin 0]"
    by (simp only:)
  moreover have "cells later_a Close \<noteq> cells later_b Close"
    by (simp add: later_a_def later_b_def)
  ultimately show ?thesis using a b by simp
qed

theorem no_lookahead_ascending_panels:
  "ascending (rev demo) \<and> ascending (rev calm)
   \<and> up_to 99 (rev demo) = up_to 99 (rev calm)
   \<and> weight_at (rev demo) 0 = Some [Fin (1 / 2), Fin (- 1 / 2), Fin 0]
   \<and> weight_at (rev calm) 0 = Some [Fin 0, Fin 0, Fin 0]"
proof -
  have d: "distinct (map time demo)" "distinct (map time calm)"
    using ascending_distinct [OF descending_rev [OF descending_demo]]
      ascending_distinct [OF descending_rev [OF descending_calm]]
    by (metis distinct_rev rev_map)+
  have "weight_at (rev demo) (time (rev (rev demo) ! 100)) = Some (weights (rev demo) ! 100)"
    using d(1) by (intro weight_at_nth) simp_all
  then have 1: "weight_at (rev demo) 0 = Some [Fin (1 / 2), Fin (- 1 / 2), Fin 0]"
    using rev_rev_demo_nth [of 100] by (simp add: asc_demo_weights demo_slice_def)
  have "weight_at (rev calm) (time (rev (rev calm) ! 100)) = Some (weights (rev calm) ! 100)"
    using d(2) by (intro weight_at_nth) simp_all
  then have 2: "weight_at (rev calm) 0 = Some [Fin 0, Fin 0, Fin 0]"
    by (simp add: calm_weights calm_nth demo_slice_def)
  from 1 2 show ?thesis
    by (simp add: descending_rev descending_demo descending_calm calm_up_to_99)
qed

text \<open>
  C2 (full investment), in exact arithmetic. In every time step the absolute values
  of the weights add up to 1 where the denominator (the sum of the absolute neutralized
  signals) is a positive number, and to 0 elsewhere; no other sum occurs. Where every
  asset has its 100 trailing return observations, the sum is 0 only if the neutralized
  signal of every asset is 0 or no asset is liquid. \<open>step\<close> returns a vector for
  every panel that has a time step, with one weight for each asset, and all of this
  holds of that vector and the last time step.
\<close>

theorem full_investment_normalization:
  assumes "rect n data"
  shows "(\<forall>i<length data.
            fsum (map fabs (weights data ! i))
              = (if is_fin (abs_sum data ! i) \<and> gt0 (abs_sum data ! i) then Fin 1 else Fin 0)
          \<and> (observed data n i \<longrightarrow> fsum (map fabs (weights data ! i)) = Fin 0 \<longrightarrow>
                (\<forall>a<n. liq_avg_returns_neutralized data ! i ! a = Fin 0)
                \<or> (\<forall>a<n. \<not> gt0 (is_liquid data ! i ! a))))
    \<and> (data \<noteq> [] \<longrightarrow> (\<exists>v. step data = Inr v))
    \<and> (\<forall>v. step data = Inr v \<longrightarrow>
            length (fractions v) = n
          \<and> fsum (map fabs (fractions v))
              = (if is_fin (last (abs_sum data)) \<and> gt0 (last (abs_sum data)) then Fin 1 else Fin 0)
          \<and> (observed data n (length data - 1) \<longrightarrow> fsum (map fabs (fractions v)) = Fin 0 \<longrightarrow>
                (\<forall>a<n. last (liq_avg_returns_neutralized data) ! a = Fin 0)
                \<or> (\<forall>a<n. \<not> gt0 (last (is_liquid data) ! a))))"
proof -
  have one: "fsum (map fabs (weights data ! i))
      = (if is_fin (abs_sum data ! i) \<and> gt0 (abs_sum data ! i) then Fin 1 else Fin 0)"
    if "i < length data" for i
    using that by (simp only: weights_nth abs_sum_nth row_weights_abs_sum_char)
  have only: "(\<forall>a<n. liq_avg_returns_neutralized data ! i ! a = Fin 0)
      \<or> (\<forall>a<n. \<not> gt0 (is_liquid data ! i ! a))"
    if i: "i < length data" and o: "observed data n i"
      and z: "fsum (map fabs (weights data ! i)) = Fin 0" for i
  proof -
    let ?L = "is_liquid data ! i" and ?V = "avg_returns data ! i"
    have lL: "length ?L = n" and lV: "length ?V = n"
      using assms i by (simp_all add: length_is_liquid_row length_avg_returns_row)
    have "\<forall>v\<in>set ?V. is_fin v"
      using observed_avg_fin [OF assms i o] lV by (simp add: all_set_conv_all_nth)
    moreover from z i have "fsum (map fabs (row_weights ?L ?V)) = Fin 0"
      by (simp add: weights_nth)
    ultimately have "(\<forall>x\<in>set (row_neutralized ?L ?V). x = Fin 0) \<or> (\<forall>l\<in>set ?L. \<not> gt0 l)"
      using lL lV by (intro row_zero_sum_only_if) simp_all
    then show ?thesis
      using i lL lV by (auto simp: neutralized_nth all_set_conv_all_nth)
  qed
  have ex: "\<exists>v. step data = Inr v" if "data \<noteq> []"
    using step_nonempty [OF that] by blast
  have ret: "length (fractions v) = n
      \<and> fsum (map fabs (fractions v))
          = (if is_fin (last (abs_sum data)) \<and> gt0 (last (abs_sum data)) then Fin 1 else Fin 0)
      \<and> (observed data n (length data - 1) \<longrightarrow> fsum (map fabs (fractions v)) = Fin 0 \<longrightarrow>
            (\<forall>a<n. last (liq_avg_returns_neutralized data) ! a = Fin 0)
            \<or> (\<forall>a<n. \<not> gt0 (last (is_liquid data) ! a)))"
    if "step data = Inr v" for v
  proof -
    from step_Inr_D [OF that]
    have ne: "data \<noteq> []" and f: "fractions v = weights data ! (length data - 1)" by auto
    from ne have l: "length data - 1 < length data" by (cases data) simp_all
    have la: "last (liq_avg_returns_neutralized data)
        = liq_avg_returns_neutralized data ! (length data - 1)"
      using ne by (simp add: last_row)
    from assms l have "length (fractions v) = n" by (simp add: f length_weights_row)
    with one [OF l] only [OF l] ne f la show ?thesis by (simp add: last_rows)
  qed
  from one only ex ret show ?thesis by blast
qed

theorem full_investment_normalization_witness:
  "rect 3 demo \<and> observed demo 3 100 \<and> last (abs_sum demo) = Fin (1 / 100)
   \<and> step demo = Inr \<lparr>at_time = 100, fractions = [Fin (- 1 / 2), Fin (1 / 2), Fin 0]\<rparr>
   \<and> fsum (map fabs [Fin (- 1 / 2), Fin (1 / 2), Fin 0]) = Fin 1
   \<and> rect 2 flat \<and> observed flat 2 (length flat - 1) \<and> last (abs_sum flat) = Fin 0
   \<and> step flat = Inr \<lparr>at_time = 100, fractions = [Fin 0, Fin 0]\<rparr>
   \<and> fsum (map fabs [Fin 0, Fin 0]) = Fin 0
   \<and> last (liq_avg_returns_neutralized flat) = [Fin 0, Fin 0]"
proof -
  have fne: "flat \<noteq> []" by (metis length_flat list.size(3) zero_neq_numeral)
  have la: "last (abs_sum demo) = Fin (1 / 100)" "last (abs_sum flat) = Fin 0"
    using demo_nonempty fne by (simp_all add: last_rows demo_abs_sum flat_abs_sum)
  have ln: "last (liq_avg_returns_neutralized flat) = liq_avg_returns_neutralized flat ! 100"
    using fne last_row [of "liq_avg_returns_neutralized flat" flat] by simp
  have li: "last (is_liquid flat) = is_liquid flat ! 100"
    using fne by (simp add: last_rows)
  from full_investment_normalization [OF rect_demo] step_demo la(1)
  have d: "fsum (map fabs [Fin (- 1 / 2), Fin (1 / 2), Fin 0]) = Fin 1" by simp
  from full_investment_normalization [OF rect_flat] step_flat la(2) observed_flat
  have f: "fsum (map fabs [Fin 0, Fin 0]) = Fin 0"
    and "(\<forall>a<2. last (liq_avg_returns_neutralized flat) ! a = Fin 0)
      \<or> (\<forall>a<2. \<not> gt0 (last (is_liquid flat) ! a))" by simp_all
  moreover have "gt0 (last (is_liquid flat) ! 0)" by (simp add: li flat_is_liquid)
  ultimately have "\<forall>a<2. last (liq_avg_returns_neutralized flat) ! a = Fin 0"
    by auto
  moreover have "length (last (liq_avg_returns_neutralized flat)) = 2"
    by (simp add: ln flat_neutralized)
  ultimately have n: "last (liq_avg_returns_neutralized flat) = [Fin 0, Fin 0]"
    by (auto simp: list_eq_iff_nth_eq nth_Cons')
  from d f n la show ?thesis
    by (simp add: rect_demo rect_flat observed_demo observed_flat step_demo step_flat)
qed

text \<open>
  In float64 arithmetic the sum is 1 only up to rounding. On the panel with the jump
  in the second asset the exact weights are -1/4, 1/2 and -1/4. The rounded ones are
  -0.25, 0.4999999999999999 and -0.25: their absolute values add up to \<open>1 - 2^-53\<close>,
  which is 0.9999999999999999, whether the sum is rounded or not. With the jump in the
  third asset the rounded weights are -0.25000000000000006, -0.25000000000000006 and
  0.5, whose absolute values add up to \<open>1 + 2^-53\<close>.
\<close>

theorem full_investment_float64_rounding:
  "rect 3 spike \<and> observed spike 3 100
   \<and> step spike = Inr \<lparr>at_time = 100, fractions = [Fin (- 1 / 4), Fin (1 / 2), Fin (- 1 / 4)]\<rparr>
   \<and> step64 spike = Inr \<lparr>at_time = 100,
        fractions = [Fin (- 1 / 4), Fin (4503599627370495 / 9007199254740992), Fin (- 1 / 4)]\<rparr>
   \<and> fsum64 (map fabs [Fin (- 1 / 4), Fin (4503599627370495 / 9007199254740992), Fin (- 1 / 4)])
       = Fin (9007199254740991 / 9007199254740992)
   \<and> fsum (map fabs [Fin (- 1 / 4), Fin (4503599627370495 / 9007199254740992), Fin (- 1 / 4)])
       = Fin (9007199254740991 / 9007199254740992)
   \<and> Fin (9007199254740991 / 9007199254740992) \<noteq> Fin 1
   \<and> Fin (9007199254740991 / 9007199254740992) \<noteq> Fin 0
   \<and> step64 spike_last = Inr \<lparr>at_time = 100,
        fractions = [Fin (- 4503599627370497 / 18014398509481984),
                     Fin (- 4503599627370497 / 18014398509481984), Fin (1 / 2)]\<rparr>
   \<and> fsum (map fabs [Fin (- 4503599627370497 / 18014398509481984),
                      Fin (- 4503599627370497 / 18014398509481984), Fin (1 / 2)])
       = Fin (9007199254740993 / 9007199254740992)
   \<and> Fin (9007199254740993 / 9007199254740992) \<noteq> Fin 1"
proof -
  have "Fin (9007199254740991 / 9007199254740992) \<noteq> Fin 1"
    and "Fin (9007199254740991 / 9007199254740992) \<noteq> Fin 0"
    and "Fin (9007199254740993 / 9007199254740992) \<noteq> Fin 1" by simp_all
  with rect_spike observed_spike step_spike step64_spike spike_abs_sum64 spike_abs_sum_exact
    step64_spike_last spike_last_abs_sum_exact
  show ?thesis by blast
qed

text \<open>
  C3 (liquidity mask). In every time step of the weights that \<open>step\<close> computes, and
  so in the vector it returns, an asset whose \<open>is_liquid\<close> cell of that time step
  is \<open><= 0\<close> has the weight 0, whatever its prices are.
\<close>

theorem liquidity_mask_invariant:
  assumes "rect n data" and "a < n"
  shows "(\<forall>i<length data. le0 (is_liquid data ! i ! a) \<longrightarrow> weights data ! i ! a = Fin 0)
       \<and> (\<forall>v. step data = Inr v \<longrightarrow> le0 (last (is_liquid data) ! a) \<longrightarrow> fractions v ! a = Fin 0)"
proof -
  have row: "weights data ! i ! a = Fin 0"
    if "i < length data" "le0 (is_liquid data ! i ! a)" for i
    using that assms
    by (simp add: weights_nth row_weights_illiquid le0_not_gt0 length_is_liquid_row
        length_avg_returns_row)
  have "fractions v ! a = Fin 0" if "step data = Inr v" "le0 (last (is_liquid data) ! a)" for v
  proof -
    from step_Inr_D [OF that(1)]
    have ne: "data \<noteq> []" and f: "fractions v = weights data ! (length data - 1)" by auto
    from ne have "length data - 1 < length data" by (cases data) simp_all
    with row [of "length data - 1"] that(2) ne f show ?thesis by (simp add: last_rows)
  qed
  with row show ?thesis by blast
qed

theorem liquidity_mask_invariant_witness:
  "rect 3 demo \<and> 2 < (3::nat) \<and> le0 (is_liquid demo ! 100 ! 2) \<and> weights demo ! 100 ! 2 = Fin 0"
  using liquidity_mask_invariant [OF rect_demo, of 2]
  by (simp add: rect_demo demo_is_liquid)

text \<open>
  C4 (cross-sectional neutrality). In every time step the weights of the assets that
  are liquid in that time step add up to 0, exactly. This holds where the time step has
  a liquid asset and a nonzero denominator, and also elsewhere, where every weight is 0.
\<close>

theorem cross_sectional_neutrality:
  "(\<forall>i<length data. fsum (liquid_part (is_liquid data ! i) (weights data ! i)) = Fin 0)
   \<and> (\<forall>v. step data = Inr v \<longrightarrow> fsum (liquid_part (last (is_liquid data)) (fractions v)) = Fin 0)"
proof -
  have row: "fsum (liquid_part (is_liquid data ! i) (weights data ! i)) = Fin 0"
    if "i < length data" for i
    using that by (simp add: weights_nth row_liquid_weights_sum)
  have "fsum (liquid_part (last (is_liquid data)) (fractions v)) = Fin 0"
    if "step data = Inr v" for v
  proof -
    from step_Inr_D [OF that]
    have ne: "data \<noteq> []" and f: "fractions v = weights data ! (length data - 1)" by auto
    from ne have "length data - 1 < length data" by (cases data) simp_all
    from row [OF this] ne f show ?thesis by (simp add: last_rows)
  qed
  with row show ?thesis by blast
qed

theorem cross_sectional_neutrality_witness:
  "abs_sum demo ! 100 = Fin (1 / 100)
   \<and> liquid_part (is_liquid demo ! 100) (weights demo ! 100) = [Fin (- 1 / 2), Fin (1 / 2)]
   \<and> fsum (liquid_part (is_liquid demo ! 100) (weights demo ! 100)) = Fin 0"
proof -
  from cross_sectional_neutrality [of demo]
  have "fsum (liquid_part (is_liquid demo ! 100) (weights demo ! 100)) = Fin 0" by simp
  then show ?thesis by (simp add: demo_abs_sum demo_is_liquid demo_weights)
qed

text \<open>
  C5 (last index), as the code has it. \<open>step\<close> reverses the time axis it is given
  and returns the last row of the result. For a panel supplied most recent first
  that row is the weight vector of the most recent date of the panel, and the vector
  carries that date. A panel supplied oldest first is reversed as well: \<open>step\<close>
  then returns a vector for the oldest date, computed backwards in time.
\<close>

theorem last_index_output:
  assumes "descending data" and "data \<noteq> []"
  shows "\<exists>v. step data = Inr v \<and> at_time v = Max (time ` set data)
           \<and> fractions v = last (weights data)
           \<and> weight_at data (at_time v) = Some (fractions v)"
proof -
  let ?v = "\<lparr>at_time = time (hd data), fractions = weights data ! (length data - 1)\<rparr>"
  have st: "step data = Inr ?v" using assms(2) by (rule step_nonempty)
  have "walk_forward data (time (hd data)) = Some (fractions ?v)"
    by (simp add: walk_forward_def descending_up_to_hd [OF assms] st)
  then have "weight_at data (at_time ?v) = Some (fractions ?v)"
    by (simp add: weight_at_walk_forward [OF assms(1)])
  moreover have "at_time ?v = Max (time ` set data)"
    using descending_Max [OF assms] by simp
  moreover have "fractions ?v = last (weights data)"
    using assms(2) by (simp add: last_rows)
  ultimately show ?thesis using st by blast
qed

theorem last_index_output_witness:
  "descending demo \<and> demo \<noteq> [] \<and> Max (time ` set demo) = 100
   \<and> step demo = Inr \<lparr>at_time = 100, fractions = [Fin (- 1 / 2), Fin (1 / 2), Fin 0]\<rparr>
   \<and> weight_at demo 100 = Some [Fin (- 1 / 2), Fin (1 / 2), Fin 0]"
  using last_index_output [OF descending_demo demo_nonempty]
  by (auto simp: step_demo descending_demo demo_nonempty)

theorem last_index_ascending_panel:
  "ascending (rev demo) \<and> Max (time ` set (rev demo)) = 100
   \<and> step (rev demo) = Inr \<lparr>at_time = 0, fractions = [Fin (1 / 2), Fin (- 1 / 2), Fin 0]\<rparr>
   \<and> weight_at demo 100 = Some [Fin (- 1 / 2), Fin (1 / 2), Fin 0]"
proof -
  have "Max (time ` set demo) = 100"
    using descending_Max [OF descending_demo demo_nonempty] step_demo
      step_nonempty [OF demo_nonempty] by simp
  moreover have "weight_at demo 100 = Some [Fin (- 1 / 2), Fin (1 / 2), Fin 0]"
    using weight_at_walk_forward [OF descending_demo, of 100]
    by (simp add: walk_forward_def up_to_all demo_times step_demo)
  ultimately show ?thesis
    by (simp add: descending_rev descending_demo step_asc_demo)
qed

text \<open>
  C6 (zero denominator). Where the sum over the assets of the absolute neutralized
  signal of a time step is zero, every weight of that time step is the number 0. The
  division raises nothing, and no weight of any time step is NaN or infinite, so no
  undefined value reaches the caller.
\<close>

theorem zero_denominator_guard:
  assumes "rect n data"
  shows "(\<forall>i<length data. abs_sum data ! i = Fin 0 \<longrightarrow> weights data ! i = replicate n (Fin 0))
       \<and> (\<forall>i<length data. \<forall>w\<in>set (weights data ! i). is_fin w)
       \<and> (\<forall>v. step data = Inr v \<longrightarrow>
            (\<forall>w\<in>set (fractions v). is_fin w)
            \<and> (last (abs_sum data) = Fin 0 \<longrightarrow> fractions v = replicate n (Fin 0)))"
proof -
  have zero: "weights data ! i = replicate n (Fin 0)"
    if "i < length data" "abs_sum data ! i = Fin 0" for i
  proof -
    from that have "\<forall>w\<in>set (weights data ! i). w = Fin 0"
      by (auto simp: weights_nth abs_sum_nth dest: row_weights_zero_denominator)
    moreover from that(1) assms have "length (weights data ! i) = n"
      by (simp add: length_weights_row)
    ultimately show ?thesis by (simp add: list_eq_iff_nth_eq)
  qed
  have fin: "is_fin w" if "i < length data" "w \<in> set (weights data ! i)" for i w
    using that by (auto simp: weights_nth dest: row_weights_finite)
  have ret: "(\<forall>w\<in>set (fractions v). is_fin w)
      \<and> (last (abs_sum data) = Fin 0 \<longrightarrow> fractions v = replicate n (Fin 0))"
    if "step data = Inr v" for v
  proof -
    from step_Inr_D [OF that]
    have ne: "data \<noteq> []" and f: "fractions v = weights data ! (length data - 1)" by auto
    from ne have l: "length data - 1 < length data" by (cases data) simp_all
    show ?thesis
      using fin [OF l] zero [OF l] ne f by (simp add: last_rows)
  qed
  from zero fin ret show ?thesis by blast
qed

theorem zero_denominator_guard_witness:
  "rect 2 flat \<and> abs_sum flat ! 100 = Fin 0 \<and> weights flat ! 100 = [Fin 0, Fin 0]
   \<and> rect 3 demo \<and> abs_sum demo ! 0 = Fin 0 \<and> weights demo ! 0 = [Fin 0, Fin 0, Fin 0]
   \<and> list_all is_fin (weights demo ! 100)"
proof -
  have "avg_returns demo ! 0 = [NaN, NaN, NaN]"
    using avg_returns_warm_up [OF rect_demo, of 0] length_avg_returns_row [OF rect_demo, of 0]
    by (simp add: list_eq_iff_nth_eq numeral_3_eq_3 less_Suc_eq)
  moreover have "is_liquid demo ! 0 = [Fin 1, Fin 1, Fin 0]"
    by (simp add: is_liquid_nth rev_demo_nth demo_slice_def)
  moreover have "row_abs_sum [Fin 1, Fin 1, Fin 0] [NaN, NaN, NaN] = Fin 0"
    by code_simp
  ultimately have z: "abs_sum demo ! 0 = Fin 0" by (simp add: abs_sum_nth)
  have r: "replicate 3 (Fin 0) = [Fin 0, Fin 0, Fin 0]" "replicate 2 (Fin 0) = [Fin 0, Fin 0]"
    by (simp_all add: numeral_3_eq_3 numeral_2_eq_2)
  from zero_denominator_guard [OF rect_demo]
  have a: "\<forall>i<length demo. abs_sum demo ! i = Fin 0 \<longrightarrow> weights demo ! i = replicate 3 (Fin 0)"
    and b: "\<forall>i<length demo. \<forall>w\<in>set (weights demo ! i). is_fin w" by blast+
  from zero_denominator_guard [OF rect_flat]
  have c: "\<forall>i<length flat. abs_sum flat ! i = Fin 0 \<longrightarrow> weights flat ! i = replicate 2 (Fin 0)"
    by blast
  from a [rule_format, of 0] b [rule_format, of 100] c [rule_format, of 100] z r flat_abs_sum
  show ?thesis
    by (simp add: rect_demo rect_flat list_all_iff)
qed

text \<open>
  C7 (insufficient history), as the code has it. The first 100 time steps of any panel
  get the weight 0 for every asset. Where xarray computes the rolling mean itself, a
  panel of 1 to 100 time steps therefore makes \<open>step\<close> return the zero vector, and
  no error. The panel with no time step is different: the rolling mean raises
  ValueError on it, and \<open>step\<close> with it. Where bottleneck is installed the rolling
  mean raises ValueError on every panel of fewer than 100 time steps, and \<open>step\<close>
  returns the zero vector on a panel of exactly 100 time steps.
\<close>

theorem insufficient_history_zero:
  assumes "rect n data"
  shows "(\<forall>i<length data. i < 100 \<longrightarrow> weights data ! i = replicate n (Fin 0))
       \<and> (data \<noteq> [] \<and> length data < 101 \<longrightarrow>
            step data = Inr \<lparr>at_time = time (hd data), fractions = replicate n (Fin 0)\<rparr>)
       \<and> (length data = 100 \<longrightarrow>
            step_in True data = Inr \<lparr>at_time = time (hd data), fractions = replicate n (Fin 0)\<rparr>)
       \<and> (length data < 100 \<longrightarrow> step_in True data = Inl ValueError)
       \<and> (data = [] \<longrightarrow> step data = Inl ValueError)"
proof -
  have z: "weights data ! (length data - 1) = replicate n (Fin 0)"
    if "data \<noteq> []" "length data < 101"
  proof -
    from that have "length data - 1 < length data" "length data - 1 < 100"
      by (cases data; simp)+
    with assms show ?thesis by (rule weights_warm_up)
  qed
  have 1: "step data = Inr \<lparr>at_time = time (hd data), fractions = replicate n (Fin 0)\<rparr>"
    if "data \<noteq> []" "length data < 101"
    using that z by (simp add: step_nonempty)
  have 2: "step_in True data = Inr \<lparr>at_time = time (hd data), fractions = replicate n (Fin 0)\<rparr>"
    if "length data = 100"
  proof -
    from that have "data \<noteq> []" by auto
    with that z show ?thesis by (simp add: step_in_returns)
  qed
  have 3: "step_in True data = Inl ValueError" if "length data < 100"
    using that by (simp add: step_in_raises)
  have 4: "step data = Inl ValueError" if "data = []"
    using that by (simp add: step_empty)
  from 1 2 3 4 assms show ?thesis by (simp add: weights_warm_up)
qed

theorem insufficient_history_zero_witness:
  "rect 3 (drop 1 demo) \<and> drop 1 demo \<noteq> [] \<and> length (drop 1 demo) = 100
     \<and> step (drop 1 demo) = Inr \<lparr>at_time = 99, fractions = [Fin 0, Fin 0, Fin 0]\<rparr>
     \<and> step_in True (drop 1 demo) = Inr \<lparr>at_time = 99, fractions = [Fin 0, Fin 0, Fin 0]\<rparr>
     \<and> rect 3 (drop 2 demo) \<and> length (drop 2 demo) = 99
     \<and> step (drop 2 demo) = Inr \<lparr>at_time = 98, fractions = [Fin 0, Fin 0, Fin 0]\<rparr>
     \<and> step_in True (drop 2 demo) = Inl ValueError"
proof -
  have r: "rect 3 (drop k demo)" for k
    using rect_demo by (auto simp: rect_def list_all_iff dest: in_set_dropD)
  have l: "length (drop 1 demo) = 100" "length (drop 2 demo) = 99" by simp_all
  then have ne: "drop 1 demo \<noteq> []" "drop 2 demo \<noteq> []"
    by (metis list.size(3) zero_neq_numeral)+
  have "hd (drop 1 demo) = demo ! 1" by (simp add: hd_drop_conv_nth)
  also have "\<dots> = demo_slice 99" by (simp add: demo_def rev_nth del: upt_Suc)
  finally have h1: "time (hd (drop 1 demo)) = 99" by (simp add: demo_slice_def)
  have "hd (drop 2 demo) = demo ! 2" by (simp add: hd_drop_conv_nth)
  also have "\<dots> = demo_slice 98" by (simp add: demo_def rev_nth del: upt_Suc)
  finally have h2: "time (hd (drop 2 demo)) = 98" by (simp add: demo_slice_def)
  have z: "replicate 3 (Fin 0) = [Fin 0, Fin 0, Fin 0]" by (simp add: numeral_3_eq_3)
  from insufficient_history_zero [OF r, of 1] ne(1) l(1) h1 z
  have 1: "step (drop 1 demo) = Inr \<lparr>at_time = 99, fractions = [Fin 0, Fin 0, Fin 0]\<rparr>"
    and 2: "step_in True (drop 1 demo) = Inr \<lparr>at_time = 99, fractions = [Fin 0, Fin 0, Fin 0]\<rparr>"
    by simp_all
  from insufficient_history_zero [OF r, of 2] ne(2) l(2) h2 z
  have 3: "step (drop 2 demo) = Inr \<lparr>at_time = 98, fractions = [Fin 0, Fin 0, Fin 0]\<rparr>"
    and 4: "step_in True (drop 2 demo) = Inl ValueError"
    by simp_all
  from 1 2 3 4 r ne l show ?thesis by simp
qed

theorem insufficient_history_raises:
  "length ([] :: panel) < 101 \<and> step [] = Inl ValueError \<and> step_in True [] = Inl ValueError
   \<and> length (drop 2 demo) = 99 \<and> step_in True (drop 2 demo) = Inl ValueError"
  by (simp add: step_empty step_in_raises)

text \<open>
  C8 (returns and their trailing average), as the code has it. For a time step \<open>i\<close>
  after the first, the return of asset \<open>a\<close> is
  \<open>(price[i,a] - price[i-1,a]) / price[i-1,a]\<close>, a number when both prices are
  numbers and the earlier one is not 0. It is missing (NaN) in the first time step and
  where the earlier price is missing. Where the earlier price is 0 it is not a number,
  but it is missing only for \<open>0 / 0\<close>: numpy divides a positive price by 0 to plus
  infinity and a negative one to minus infinity. Where the 100 returns that end at time
  step \<open>i\<close> are numbers, the average return is their arithmetic mean.
\<close>

theorem signal_pipeline_reference:
  assumes "rect n data" and "i < length data" and "a < n"
  shows "(0 < i \<longrightarrow> returns data ! i ! a
            = fdiv (fsub (prices data ! i ! a) (prices data ! (i - 1) ! a)) (prices data ! (i - 1) ! a))
    \<and> (\<forall>p q. 0 < i \<longrightarrow> prices data ! i ! a = Fin p \<longrightarrow> prices data ! (i - 1) ! a = Fin q \<longrightarrow> q \<noteq> 0
          \<longrightarrow> returns data ! i ! a = Fin ((p - q) / q))
    \<and> (i = 0 \<or> prices data ! (i - 1) ! a = NaN \<longrightarrow> returns data ! i ! a = NaN)
    \<and> (prices data ! (i - 1) ! a = Fin 0 \<longrightarrow> \<not> is_fin (returns data ! i ! a))
    \<and> (\<forall>p. 0 < i \<longrightarrow> prices data ! i ! a = Fin p \<longrightarrow> prices data ! (i - 1) ! a = Fin 0
          \<longrightarrow> returns data ! i ! a = (if p = 0 then NaN else if 0 < p then PInf else NInf))
    \<and> (99 \<le> i \<longrightarrow> (\<forall>k\<in>set [i - 99..<Suc i]. is_fin (returns data ! k ! a)) \<longrightarrow>
          avg_returns data ! i ! a
            = Fin (sum_list (map (\<lambda>k. fin_val (returns data ! k ! a)) [i - 99..<Suc i]) / 100))"
proof -
  note rc = returns_cell [OF assms]
  have 1: "0 < i \<longrightarrow> returns data ! i ! a
      = fdiv (fsub (prices data ! i ! a) (prices data ! (i - 1) ! a)) (prices data ! (i - 1) ! a)"
    using rc by simp
  have 2: "\<forall>p q. 0 < i \<longrightarrow> prices data ! i ! a = Fin p \<longrightarrow> prices data ! (i - 1) ! a = Fin q
      \<longrightarrow> q \<noteq> 0 \<longrightarrow> returns data ! i ! a = Fin ((p - q) / q)"
    using rc by (simp add: fsub_def)
  have 3: "i = 0 \<or> prices data ! (i - 1) ! a = NaN \<longrightarrow> returns data ! i ! a = NaN"
    using rc by auto
  have 4: "prices data ! (i - 1) ! a = Fin 0 \<longrightarrow> \<not> is_fin (returns data ! i ! a)"
    using rc by (auto simp: fdiv_by_zero_not_fin)
  have 5: "\<forall>p. 0 < i \<longrightarrow> prices data ! i ! a = Fin p \<longrightarrow> prices data ! (i - 1) ! a = Fin 0
      \<longrightarrow> returns data ! i ! a = (if p = 0 then NaN else if 0 < p then PInf else NInf)"
    using rc by (simp add: fsub_def)
  have 6: "99 \<le> i \<longrightarrow> (\<forall>k\<in>set [i - 99..<Suc i]. is_fin (returns data ! k ! a)) \<longrightarrow>
      avg_returns data ! i ! a
        = Fin (sum_list (map (\<lambda>k. fin_val (returns data ! k ! a)) [i - 99..<Suc i]) / 100)"
    using avg_returns_observed [OF assms(1,2) _ assms(3)] by blast
  from 1 2 3 4 5 6 show ?thesis by blast
qed

theorem signal_pipeline_reference_witness:
  "rect 3 demo \<and> prices demo ! 100 ! 1 = Fin 2 \<and> prices demo ! 99 ! 1 = Fin 1
   \<and> returns demo ! 100 ! 1 = Fin ((2 - 1) / 1)
   \<and> returns demo ! 0 ! 1 = NaN
   \<and> list_all (\<lambda>k. is_fin (returns demo ! k ! 1)) [1..<101]
   \<and> avg_returns demo ! 100 ! 1 = Fin (1 / 100)
   \<and> rect 1 halted \<and> prices halted ! 0 ! 0 = Fin 0 \<and> returns halted ! 1 ! 0 = PInf"
proof -
  have p: "prices demo ! 100 ! 1 = Fin 2" "prices demo ! 99 ! 1 = Fin 1"
    by (simp_all add: demo_prices)
  have f: "\<forall>k\<in>set [100 - 99..<Suc 100]. is_fin (returns demo ! k ! 1)"
    by (simp add: demo_returns del: upt_Suc)
  from signal_pipeline_reference [OF rect_demo, of 100 1] p
  have r1: "returns demo ! 100 ! 1 = Fin ((2 - 1) / 1)" by (simp add: fsub_def)
  from signal_pipeline_reference [OF rect_demo, of 0 1]
  have r0: "returns demo ! 0 ! 1 = NaN" by simp
  have a1: "avg_returns demo ! 100 ! 1 = Fin (1 / 100)" by (simp add: demo_avg_returns)
  have h: "rect 1 halted" by (simp add: rect_def halted_def)
  have hp: "prices halted ! 0 ! 0 = Fin 0" "prices halted ! 1 ! 0 = Fin 3"
    by (simp_all add: prices_def loc_rev_def halted_def)
  from signal_pipeline_reference [OF h, of 1 0] hp
  have "returns halted ! 1 ! 0 = PInf \<and> \<not> is_fin (returns halted ! 1 ! 0)"
    by (simp add: halted_def fsub_def)
  with p r1 r0 f a1 h hp show ?thesis
    by (simp add: rect_demo list_all_iff del: upt_Suc)
qed

theorem signal_pipeline_zero_denominator:
  "rect 1 halted \<and> prices halted ! 0 ! 0 = Fin 0 \<and> prices halted ! 1 ! 0 = Fin 3
   \<and> returns halted ! 1 ! 0 = PInf \<and> returns halted ! 1 ! 0 \<noteq> NaN
   \<and> dropna (returns halted ! 1) = [PInf]"
proof -
  have r: "rect 1 halted" by (simp add: rect_def halted_def)
  have p: "prices halted ! 0 ! 0 = Fin 0" "prices halted ! 1 ! 0 = Fin 3"
    by (simp_all add: prices_def loc_rev_def halted_def)
  have "length (returns halted ! 1) = 1"
    using r by (rule length_returns_row) (simp add: halted_def)
  then have "returns halted ! 1 = [returns halted ! 1 ! 0]"
    by (cases "returns halted ! 1") simp_all
  then have "returns halted ! 1 = [PInf]" by (simp only: halted_returns)
  then have d: "dropna (returns halted ! 1) = [PInf]" by simp
  have n: "returns halted ! 1 ! 0 \<noteq> NaN" by (simp only: halted_returns) simp
  from r p halted_returns n d show ?thesis by blast
qed

text \<open>
  C9 (time reordering), as the code has it. \<open>step\<close> reverses the time axis of every
  panel, whatever its order. For a panel supplied in descending order the reversed axis
  is ascending, and the arrays are computed along it: the return of a time step is
  taken against the close of the date before it, the average return runs over the 100
  time steps that end at its own, none of a later date, and the vector returned is the
  last row, that of the most recent date. A panel supplied in ascending order is
  reversed in the same way, into descending order: each return is then taken against
  the close of the date after it, and the vector returned carries the oldest date. The
  two results differ.
\<close>

theorem time_reordering:
  assumes "rect n data"
  shows "(descending data \<longrightarrow>
            ascending (rev data)
          \<and> (\<forall>i<length data. \<forall>a<n. 0 < i \<longrightarrow>
                time (rev data ! (i - 1)) < time (rev data ! i)
              \<and> returns data ! i ! a
                  = fdiv (fsub (cells (rev data ! i) Close ! a) (cells (rev data ! (i - 1)) Close ! a))
                      (cells (rev data ! (i - 1)) Close ! a))
          \<and> (\<forall>i<length data. \<forall>a<n. 99 \<le> i \<longrightarrow>
                avg_returns data ! i ! a
                  = window_mean 100 (map (\<lambda>k. returns data ! k ! a) [i - 99..<Suc i])
              \<and> (\<forall>k\<in>set [i - 99..<Suc i]. time (rev data ! k) \<le> time (rev data ! i)))
          \<and> (data \<noteq> [] \<longrightarrow>
                time (rev data ! (length data - 1)) = Max (time ` set data)
              \<and> step data = Inr \<lparr>at_time = Max (time ` set data),
                                  fractions = weights data ! (length data - 1)\<rparr>))
       \<and> (ascending data \<longrightarrow>
            descending (rev data)
          \<and> (\<forall>i<length data. \<forall>a<n. 0 < i \<longrightarrow>
                time (rev data ! i) < time (rev data ! (i - 1))
              \<and> returns data ! i ! a
                  = fdiv (fsub (cells (rev data ! i) Close ! a) (cells (rev data ! (i - 1)) Close ! a))
                      (cells (rev data ! (i - 1)) Close ! a))
          \<and> (data \<noteq> [] \<longrightarrow>
                time (rev data ! (length data - 1)) = Min (time ` set data)
              \<and> step data = Inr \<lparr>at_time = Min (time ` set data),
                                  fractions = weights data ! (length data - 1)\<rparr>))"
proof (intro conjI impI)
  assume d: "descending data"
  then show asc: "ascending (rev data)" by (rule descending_rev)
  show "\<forall>i<length data. \<forall>a<n. 0 < i \<longrightarrow>
      time (rev data ! (i - 1)) < time (rev data ! i)
      \<and> returns data ! i ! a
          = fdiv (fsub (cells (rev data ! i) Close ! a) (cells (rev data ! (i - 1)) Close ! a))
              (cells (rev data ! (i - 1)) Close ! a)"
  proof (intro allI impI conjI)
    fix i a assume i: "i < length data" "0 < i" and a: "a < n"
    from i show "time (rev data ! (i - 1)) < time (rev data ! i)"
      by (intro ascending_nth_less [OF asc]) simp_all
    from assms i(1) a i(2) show "returns data ! i ! a
        = fdiv (fsub (cells (rev data ! i) Close ! a) (cells (rev data ! (i - 1)) Close ! a))
            (cells (rev data ! (i - 1)) Close ! a)"
      by (rule returns_between_slices)
  qed
  show "\<forall>i<length data. \<forall>a<n. 99 \<le> i \<longrightarrow>
      avg_returns data ! i ! a
        = window_mean 100 (map (\<lambda>k. returns data ! k ! a) [i - 99..<Suc i])
      \<and> (\<forall>k\<in>set [i - 99..<Suc i]. time (rev data ! k) \<le> time (rev data ! i))"
  proof (intro allI impI conjI ballI)
    fix i a assume i: "i < length data" "99 \<le> i" and a: "a < n"
    from assms i(1) a i(2) show "avg_returns data ! i ! a
        = window_mean 100 (map (\<lambda>k. returns data ! k ! a) [i - 99..<Suc i])"
      by (rule avg_returns_trailing)
    fix k assume "k \<in> set [i - 99..<Suc i]"
    then have "k \<le> i" by auto
    then show "time (rev data ! k) \<le> time (rev data ! i)"
      using ascending_nth_less [OF asc, of k i] i(1) by (cases "k = i") simp_all
  qed
  assume ne: "data \<noteq> []"
  then have "last (rev data) = rev data ! (length data - 1)"
    by (simp add: last_conv_nth)
  with ne have "rev data ! (length data - 1) = hd data" by (simp add: last_rev)
  then show "time (rev data ! (length data - 1)) = Max (time ` set data)"
    using descending_Max [OF d ne] by simp
  show "step data = Inr \<lparr>at_time = Max (time ` set data),
      fractions = weights data ! (length data - 1)\<rparr>"
    using step_nonempty [OF ne] descending_Max [OF d ne] by simp
next
  assume a: "ascending data"
  then show desc: "descending (rev data)" by (rule ascending_rev)
  show "\<forall>i<length data. \<forall>a<n. 0 < i \<longrightarrow>
      time (rev data ! i) < time (rev data ! (i - 1))
      \<and> returns data ! i ! a
          = fdiv (fsub (cells (rev data ! i) Close ! a) (cells (rev data ! (i - 1)) Close ! a))
              (cells (rev data ! (i - 1)) Close ! a)"
  proof (intro allI impI conjI)
    fix i a assume i: "i < length data" "0 < i" and a: "a < n"
    from i show "time (rev data ! i) < time (rev data ! (i - 1))"
      by (intro descending_nth_less [OF desc]) simp_all
    from assms i(1) a i(2) show "returns data ! i ! a
        = fdiv (fsub (cells (rev data ! i) Close ! a) (cells (rev data ! (i - 1)) Close ! a))
            (cells (rev data ! (i - 1)) Close ! a)"
      by (rule returns_between_slices)
  qed
  assume ne: "data \<noteq> []"
  then have "last (rev data) = rev data ! (length data - 1)"
    by (simp add: last_conv_nth)
  with ne have "rev data ! (length data - 1) = hd data" by (simp add: last_rev)
  then show "time (rev data ! (length data - 1)) = Min (time ` set data)"
    using ascending_Min [OF a ne] by simp
  show "step data = Inr \<lparr>at_time = Min (time ` set data),
      fractions = weights data ! (length data - 1)\<rparr>"
    using step_nonempty [OF ne] ascending_Min [OF a ne] by simp
qed

theorem time_reordering_witness:
  "rect 3 demo \<and> descending demo
   \<and> time (rev demo ! 99) = 99 \<and> time (rev demo ! 100) = 100
   \<and> cells (rev demo ! 99) Close ! 1 = Fin 1 \<and> cells (rev demo ! 100) Close ! 1 = Fin 2
   \<and> returns demo ! 100 ! 1 = Fin 1
   \<and> avg_returns demo ! 100 ! 1 = Fin (1 / 100)
   \<and> step demo = Inr \<lparr>at_time = 100, fractions = [Fin (- 1 / 2), Fin (1 / 2), Fin 0]\<rparr>
   \<and> rect 3 (rev demo) \<and> ascending (rev demo)
   \<and> time (rev (rev demo) ! 0) = 100 \<and> time (rev (rev demo) ! 1) = 99
   \<and> returns (rev demo) ! 1 ! 1 = Fin (- 1 / 2)
   \<and> step (rev demo) = Inr \<lparr>at_time = 0, fractions = [Fin (1 / 2), Fin (- 1 / 2), Fin 0]\<rparr>"
proof -
  have c: "cells (rev demo ! 99) Close ! 1 = Fin 1" "cells (rev demo ! 100) Close ! 1 = Fin 2"
    "time (rev demo ! 99) = 99" "time (rev demo ! 100) = 100"
    by (simp_all add: rev_demo_nth demo_slice_def)
  have ca: "cells (rev (rev demo) ! 0) Close ! 1 = Fin 2"
    "cells (rev (rev demo) ! 1) Close ! 1 = Fin 1"
    "time (rev (rev demo) ! 0) = 100" "time (rev (rev demo) ! 1) = 99"
    using rev_rev_demo_nth [of 0] rev_rev_demo_nth [of 1]
    by (simp_all add: demo_slice_def del: rev_rev_ident)
  have asc: "ascending (rev demo)" using descending_demo by (rule descending_rev)
  from time_reordering [OF rect_demo] descending_demo
  have r: "\<forall>i<length demo. \<forall>a<3. 0 < i \<longrightarrow>
      time (rev demo ! (i - 1)) < time (rev demo ! i)
      \<and> returns demo ! i ! a
          = fdiv (fsub (cells (rev demo ! i) Close ! a) (cells (rev demo ! (i - 1)) Close ! a))
              (cells (rev demo ! (i - 1)) Close ! a)"
    and v: "\<forall>i<length demo. \<forall>a<3. 99 \<le> i \<longrightarrow>
      avg_returns demo ! i ! a
        = window_mean 100 (map (\<lambda>k. returns demo ! k ! a) [i - 99..<Suc i])
      \<and> (\<forall>k\<in>set [i - 99..<Suc i]. time (rev demo ! k) \<le> time (rev demo ! i))"
    by blast+
  from r [rule_format, of 100 1] c
  have r1: "returns demo ! 100 ! 1 = Fin 1" by (simp add: fsub_def)
  have "[100 - 99..<Suc 100] = [1..<101::nat]" by simp
  with v [rule_format, of 100 1]
  have "avg_returns demo ! 100 ! 1 = window_mean 100 (map (\<lambda>k. returns demo ! k ! 1) [1..<101])"
    by simp
  also have "map (\<lambda>k. returns demo ! k ! 1) [1..<101]
      = map (\<lambda>k. if k = 100 then Fin 1 else Fin 0) [1..<101]"
    by (simp add: demo_returns del: upt_Suc cong: map_cong)
  also have "window_mean 100 (map (\<lambda>k. if k = 100 then Fin 1 else Fin 0) [1..<101])
      = Fin (1 / 100)" by code_simp
  finally have v1: "avg_returns demo ! 100 ! 1 = Fin (1 / 100)" .
  from time_reordering [OF rect_asc_demo] asc
  have "\<forall>i<length (rev demo). \<forall>a<3. 0 < i \<longrightarrow>
      time (rev (rev demo) ! i) < time (rev (rev demo) ! (i - 1))
      \<and> returns (rev demo) ! i ! a
          = fdiv (fsub (cells (rev (rev demo) ! i) Close ! a)
                    (cells (rev (rev demo) ! (i - 1)) Close ! a))
              (cells (rev (rev demo) ! (i - 1)) Close ! a)"
    by blast
  from this [rule_format, of 1 1] ca
  have r2: "returns (rev demo) ! 1 ! 1 = Fin (- 1 / 2)"
    by (simp add: fsub_def del: rev_rev_ident)
  from c ca r1 v1 r2 asc show ?thesis
    by (simp add: rect_demo rect_asc_demo descending_demo step_demo step_asc_demo
        del: rev_rev_ident)
qed

theorem time_reordering_ascending_differs:
  "descending demo \<and> step demo \<noteq> step (rev demo)"
  by (simp add: descending_demo step_demo step_asc_demo)

text \<open>
  C10 (the pandas pipeline and \<open>step\<close>). On a panel with a gap in a price column
  the two differ: \<open>step\<close> has no return for the day of the gap and the day after
  it, so the asset has no average return and every weight is 0; pandas fills the gap
  with the last close before it and weighs both assets.
\<close>

theorem pandas_pipeline_divergence:
  "descending gap \<and> rect 2 gap
   \<and> step gap = Inr \<lparr>at_time = 101, fractions = [Fin 0, Fin 0]\<rparr>
   \<and> last (pd_weights gap) = [Fin (- 1 / 2), Fin (1 / 2)]"
proof -
  have "descending gap"
    by (simp add: gap_def gap_slice_def descending_def sorted_wrt_rev sorted_wrt_map
        del: upt_Suc)
  then show ?thesis by (simp add: rect_gap step_gap pd_weights_gap)
qed

end
